theory Spec2Isabelle
  imports Main "HOL-Library.Word"
begin

section \<open>Bytes, streams and the two white-space predicates\<close>

text \<open>
  \<^verbatim>\<open>mywc.c\<close> reads its input byte by byte with \<^verbatim>\<open>fgetc\<close>. A file is a list of
  bytes (\<^typ>\<open>char\<close> is the 8-bit byte); the value that \<^verbatim>\<open>fgetc\<close> hands back is a
  C \<^verbatim>\<open>int\<close>: the byte as a number in \<open>0..255\<close>, or \<^verbatim>\<open>EOF\<close>. The open stream is the
  list of bytes not yet read; reading at the end of the stream returns \<^verbatim>\<open>EOF\<close>
  again and again.

  The counters of the program are C \<^verbatim>\<open>int\<close>s. They are 32-bit words here: \<open>+\<close> and
  \<open>-\<close> wrap around, and \<^verbatim>\<open>printf("%d")\<close> reads them as signed numbers (\<^const>\<open>sint\<close>).
\<close>

type_synonym cint = "32 word"

text \<open>The macro \<^verbatim>\<open>EOF\<close> of \<^verbatim>\<open>stdio.h\<close>: a negative \<^verbatim>\<open>int\<close>, \<open>-1\<close> on the usual platforms.\<close>

definition EOF :: int where
  "EOF = - 1"

definition fgetc :: "char list \<Rightarrow> int \<times> char list" where
  "fgetc file = (case file of [] \<Rightarrow> (EOF, []) | b # bs \<Rightarrow> (of_char b, bs))"

text \<open>
  \<^verbatim>\<open>bool wspace(int c)\<close>: the narrow predicate, six bytes.
\<close>

definition wspace :: "int \<Rightarrow> bool" where
  "wspace c \<longleftrightarrow> (c = 9 \<or> c = 10 \<or> c = 11 \<or> c = 12 \<or> c = 13 \<or> c = 32)"

text \<open>
  The broad predicate is \<^verbatim>\<open>iswspace\<close> of the C library. It is not part of the
  program and depends on the platform, so it is a parameter \<open>iswspace\<close> of the
  scan below.
\<close>


section \<open>The counting scan of \<^verbatim>\<open>wc\<close>\<close>

text \<open>
  The inner loop
  \<^verbatim>\<open>while (!iswspace(c = fgetc(file)) && c != EOF) { chars++; }\<close>
  returns the last value read, the rest of the stream and the byte counter.
\<close>

function wc_word :: "(int \<Rightarrow> bool) \<Rightarrow> char list \<Rightarrow> cint \<Rightarrow> int \<times> char list \<times> cint" where
  "wc_word iswspace file chars =
     (let (c, file') = fgetc file in
      if \<not> iswspace c \<and> c \<noteq> EOF then wc_word iswspace file' (chars + 1)
      else (c, file', chars))"
  by pat_completeness auto
termination
  by (relation "measure (\<lambda>(p, file, chars). length file)")
    (auto simp: fgetc_def EOF_def split: list.splits)

declare wc_word.simps [simp del]

lemma wc_word_Nil:
  "wc_word iswspace [] chars = (EOF, [], chars)"
  by (subst wc_word.simps) (simp add: fgetc_def)

lemma of_char_not_EOF:
  "(of_char b :: int) \<noteq> EOF"
proof -
  have "(0::int) \<le> of_char b"
    by (metis of_nat_0_le_iff of_nat_of_char)
  then show ?thesis
    by (simp add: EOF_def)
qed

lemma wc_word_Cons:
  "wc_word iswspace (b # bs) chars =
     (if \<not> iswspace (of_char b) then wc_word iswspace bs (chars + 1)
      else (of_char b, bs, chars))"
  by (subst wc_word.simps) (simp add: fgetc_def of_char_not_EOF)

lemma wc_word_length:
  "length (fst (snd (wc_word iswspace file chars))) \<le> length file"
  by (induction "file" arbitrary: chars) (simp_all add: wc_word_Nil wc_word_Cons le_SucI)

text \<open>
  The outer loop of \<^verbatim>\<open>wc\<close>, on the counters \<open>(words, lines, chars)\<close>:
  \<^verbatim>\<open>
    while ((c = fgetc(file)) != EOF) {
      chars++;
      if (!iswspace(c)) {
        while (!iswspace(c = fgetc(file)) && c != EOF) { chars++; }
        if (wspace(c)) chars++;
        words++;
      }
      if (c == '\n') lines++;
    }\<close>
\<close>

function wc_loop :: "(int \<Rightarrow> bool) \<Rightarrow> char list \<Rightarrow> cint \<times> cint \<times> cint \<Rightarrow> cint \<times> cint \<times> cint" where
  "wc_loop iswspace file (words, lines, chars) =
     (let (c, file1) = fgetc file in
      if c \<noteq> EOF then
        (let chars = chars + 1 in
         if \<not> iswspace c then
           (let (c, file2, chars) = wc_word iswspace file1 chars;
                chars = (if wspace c then chars + 1 else chars);
                words = words + 1;
                lines = (if c = 10 then lines + 1 else lines)
            in wc_loop iswspace file2 (words, lines, chars))
         else
           (let lines = (if c = 10 then lines + 1 else lines)
            in wc_loop iswspace file1 (words, lines, chars)))
      else (words, lines, chars))"
  by pat_completeness auto
termination
proof (relation "measure (\<lambda>(p, file, counters). length file)", goal_cases)
  case 1
  show ?case by simp
next
  case (2 iswspace fl words lines chars x c file1 xa xb c' y file2 chars')
  have "length file2 \<le> length file1"
    using wc_word_length [of iswspace file1 xa] 2 by (metis fst_conv snd_conv)
  with 2 show ?case
    by (cases fl) (auto simp: fgetc_def)
next
  case 3
  then show ?case
    by (auto simp: fgetc_def EOF_def split: list.splits)
qed

declare wc_loop.simps [simp del]

lemma wc_loop_Nil:
  "wc_loop iswspace [] (words, lines, chars) = (words, lines, chars)"
  by (subst wc_loop.simps) (simp add: fgetc_def)

lemma wc_loop_Cons:
  "wc_loop iswspace (b # bs) (words, lines, chars) =
     (if \<not> iswspace (of_char b) then
        (case wc_word iswspace bs (chars + 1) of
           (c, file2, chars') \<Rightarrow>
             wc_loop iswspace file2
               (words + 1, if c = 10 then lines + 1 else lines,
                if wspace c then chars' + 1 else chars'))
      else wc_loop iswspace bs
             (words, if of_char b = (10::int) then lines + 1 else lines, chars + 1))"
  by (subst wc_loop.simps) (simp add: fgetc_def of_char_not_EOF Let_def split: prod.splits)

section \<open>The comment-exclusion pre-pass\<close>

subsection \<open>First pass: excluded characters\<close>

text \<open>
  The inner loop of the first pass,
  \<^verbatim>\<open>while((c = fgetc(file)) != '\n' && c != EOF) { CHARS_EXCLUDED++; }\<close>
  returns the last value read, the rest of the stream and the counter.
\<close>

function ec_skip :: "char list \<Rightarrow> cint \<Rightarrow> int \<times> char list \<times> cint" where
  "ec_skip file excluded =
     (let (c, file') = fgetc file in
      if c \<noteq> 10 \<and> c \<noteq> EOF then ec_skip file' (excluded + 1)
      else (c, file', excluded))"
  by pat_completeness auto
termination
  by (relation "measure (\<lambda>(file, excluded). length file)")
    (auto simp: fgetc_def EOF_def split: list.splits)

declare ec_skip.simps [simp del]

lemma ec_skip_Nil:
  "ec_skip [] excluded = (EOF, [], excluded)"
  by (subst ec_skip.simps) (simp add: fgetc_def)

lemma ec_skip_Cons:
  "ec_skip (b # bs) excluded =
     (if of_char b \<noteq> (10::int) then ec_skip bs (excluded + 1) else (of_char b, bs, excluded))"
  by (subst ec_skip.simps) (simp add: fgetc_def of_char_not_EOF)

lemma ec_skip_length:
  "length (fst (snd (ec_skip file excluded))) \<le> length file"
  by (induction "file" arbitrary: excluded) (simp_all add: ec_skip_Nil ec_skip_Cons le_SucI)

text \<open>
  The outer loop of the first pass. \<^verbatim>\<open>c2\<close> is declared without an initial value,
  \<^verbatim>\<open>int c1; int c2;\<close>, and is read by \<^verbatim>\<open>c1 == '/' && c2 == '/'\<close> before the first
  assignment when the first byte of the file is \<^verbatim>\<open>/\<close>. The value it holds at that
  moment is the argument \<open>c2\<close> of the first call.
  \<^verbatim>\<open>
    while ((c1 = fgetc(file)) != EOF) {
      if (c1 == '/' && c2 == '/') {
        CHARS_EXCLUDED += 2;
        int c;
        while((c = fgetc(file)) != '\n' && c != EOF) { CHARS_EXCLUDED++; }
        c1 = c;
      }
      c2 = c1;
    }\<close>
\<close>

function ec_chars_loop :: "char list \<Rightarrow> int \<Rightarrow> cint \<Rightarrow> cint" where
  "ec_chars_loop file c2 excluded =
     (let (c1, file1) = fgetc file in
      if c1 \<noteq> EOF then
        (if c1 = 47 \<and> c2 = 47 then
           (let excluded = excluded + 2;
                (c, file2, excluded) = ec_skip file1 excluded;
                c1 = c
            in ec_chars_loop file2 c1 excluded)
         else ec_chars_loop file1 c1 excluded)
      else excluded)"
  by pat_completeness auto
termination
proof (relation "measure (\<lambda>(file, c2, excluded). length file)", goal_cases)
  case 1
  show ?case by simp
next
  case (2 fl c2 excluded x c1 file1 xa xb c y file2 excluded')
  have "length file2 \<le> length file1"
    using ec_skip_length [of file1 xa] 2 by (metis fst_conv snd_conv)
  with 2 show ?case
    by (cases fl) (auto simp: fgetc_def)
next
  case 3
  then show ?case
    by (auto simp: fgetc_def EOF_def split: list.splits)
qed

declare ec_chars_loop.simps [simp del]

lemma ec_chars_loop_Nil:
  "ec_chars_loop [] c2 excluded = excluded"
  by (subst ec_chars_loop.simps) (simp add: fgetc_def)

lemma ec_chars_loop_Cons:
  "ec_chars_loop (b # bs) c2 excluded =
     (if of_char b = (47::int) \<and> c2 = 47 then
        (case ec_skip bs (excluded + 2) of
           (c, file2, excluded') \<Rightarrow> ec_chars_loop file2 c excluded')
      else ec_chars_loop bs (of_char b) excluded)"
  by (subst ec_chars_loop.simps) (simp add: fgetc_def of_char_not_EOF Let_def split: prod.splits)

subsection \<open>Second pass: excluded words\<close>

text \<open>
  The innermost loop of the second pass walks through the comment:
  \<^verbatim>\<open>
    while ((c3 = fgetc(file)) != '\n' && c3 != EOF) {
      if (!wspace(c4) && wspace(c3)) WORDS_EXCLUDED++;
      c4 = c3;
    }\<close>
  It returns \<open>(c3, file, c4, WORDS_EXCLUDED)\<close>.
\<close>

function ec_comment :: "char list \<Rightarrow> int \<Rightarrow> cint \<Rightarrow> int \<times> char list \<times> int \<times> cint" where
  "ec_comment file c4 excluded =
     (let (c3, file') = fgetc file in
      if c3 \<noteq> 10 \<and> c3 \<noteq> EOF then
        ec_comment file' c3 (if \<not> wspace c4 \<and> wspace c3 then excluded + 1 else excluded)
      else (c3, file', c4, excluded))"
  by pat_completeness auto
termination
  by (relation "measure (\<lambda>(file, c4, excluded). length file)")
    (auto simp: fgetc_def EOF_def split: list.splits)

declare ec_comment.simps [simp del]

lemma ec_comment_Nil:
  "ec_comment [] c4 excluded = (EOF, [], c4, excluded)"
  by (subst ec_comment.simps) (simp add: fgetc_def)

lemma ec_comment_Cons:
  "ec_comment (b # bs) c4 excluded =
     (if of_char b \<noteq> (10::int) then
        ec_comment bs (of_char b)
          (if \<not> wspace c4 \<and> wspace (of_char b) then excluded + 1 else excluded)
      else (of_char b, bs, c4, excluded))"
  by (subst ec_comment.simps) (simp add: fgetc_def of_char_not_EOF)

lemma ec_comment_stops:
  "ec_comment file c4 excluded = (c3, file', c4', excluded') \<Longrightarrow>
     (c3 = 10 \<or> c3 = EOF) \<and> length file' \<le> length file"
  by (induction "file" arbitrary: c4 excluded)
    (auto simp: ec_comment_Nil ec_comment_Cons le_SucI split: if_splits)

text \<open>
  The loop over one token, on \<open>(file, c1, c2, WORDS_EXCLUDED)\<close>;
  \<^verbatim>\<open>no_space_before_comment\<close> is fixed before the loop starts.
  \<^verbatim>\<open>
    while (!wspace(c1) && c1 != EOF) {
      if (c1 == '/' && c2 == '/') {
        int c3;
        int c4 = c1;
        while ((c3 = fgetc(file)) != '\n' && c3 != EOF) { ... }
        if (!wspace(c4)) WORDS_EXCLUDED++;
        if(no_space_before_comment) WORDS_EXCLUDED--;
        c1 = c3;
      }
      else {
        c2 = c1;
        c1 = fgetc(file);
      }
    }\<close>
\<close>

function ec_token :: "char list \<Rightarrow> int \<Rightarrow> int \<Rightarrow> bool \<Rightarrow> cint \<Rightarrow> char list \<times> cint" where
  "ec_token file c1 c2 no_space_before_comment excluded =
     (if \<not> wspace c1 \<and> c1 \<noteq> EOF then
        (if c1 = 47 \<and> c2 = 47 then
           (let c4 = c1;
                (c3, file', c4, excluded) = ec_comment file c4 excluded;
                excluded = (if \<not> wspace c4 then excluded + 1 else excluded);
                excluded = (if no_space_before_comment then excluded - 1 else excluded);
                c1 = c3
            in ec_token file' c1 c2 no_space_before_comment excluded)
         else
           (let c2 = c1;
                (c1, file') = fgetc file
            in ec_token file' c1 c2 no_space_before_comment excluded))
      else (file, excluded))"
  by pat_completeness auto
termination
proof (relation "measure (\<lambda>(file, c1, c2, nsbc, excluded).
         2 * length file + (if \<not> wspace c1 \<and> c1 \<noteq> EOF then 1 else 0))", goal_cases)
  case 1
  show ?case by simp
next
  case (2 fl c1 c2 nsbc excluded c4 x c3 y file' ya c4' excluded')
  have "(c3 = 10 \<or> c3 = EOF) \<and> length file' \<le> length fl"
    using ec_comment_stops [of fl c4 excluded c3 file' c4' excluded'] 2 by simp
  with 2 show ?case
    by (auto simp: wspace_def)
next
  case (3 fl c1 c2 nsbc excluded c2' x c1' file')
  then show ?case
    by (cases fl) (auto simp: fgetc_def)
qed

declare ec_token.simps [simp del]

text \<open>
  The outer loop of the second pass. \<^verbatim>\<open>c2\<close> is declared in the block of every
  token, again without an initial value, and is read before its first assignment
  when the token starts with \<^verbatim>\<open>/\<close>. The value it holds on entering the block for
  the \<open>k\<close>-th time is \<open>junk k\<close>.
  \<^verbatim>\<open>
    while ((c = fgetc(file)) != EOF) {
      if (!wspace(c)) {
        int c1 = c;
        int c2;
        bool no_space_before_comment = false;
        if (c1 != '/') { no_space_before_comment = true;; }
        while (!wspace(c1) && c1 != EOF) { ... }
      }
    }\<close>
\<close>

lemma ec_token_stop:
  "wspace c1 \<or> c1 = EOF \<Longrightarrow> ec_token file c1 c2 nsbc excluded = (file, excluded)"
  by (subst ec_token.simps) auto

lemma ec_token_step:
  "\<not> wspace c1 \<Longrightarrow> c1 \<noteq> EOF \<Longrightarrow> \<not> (c1 = 47 \<and> c2 = 47) \<Longrightarrow>
     ec_token file c1 c2 nsbc excluded =
       (case fgetc file of (c1', file') \<Rightarrow> ec_token file' c1' c1 nsbc excluded)"
  by (subst ec_token.simps) (auto simp: Let_def)

lemma ec_token_marker:
  assumes "c2 = 47"
  shows "ec_token file 47 c2 nsbc excluded =
     (case ec_comment file 47 excluded of
        (c3, file', c4, excluded') \<Rightarrow>
          (file', (if nsbc then (if \<not> wspace c4 then excluded' + 1 else excluded') - 1
                   else (if \<not> wspace c4 then excluded' + 1 else excluded'))))"
proof -
  obtain c3 file' c4 excluded' where r: "ec_comment file 47 excluded = (c3, file', c4, excluded')"
    by (metis prod_cases4)
  from ec_comment_stops [OF r] have "wspace c3 \<or> c3 = EOF"
    by (auto simp: wspace_def)
  then have stop: "\<And>e. ec_token file' c3 47 nsbc e = (file', e)"
    by (rule ec_token_stop)
  have "\<not> wspace 47" "(47::int) \<noteq> EOF"
    by (simp_all add: wspace_def EOF_def)
  then show ?thesis
    using assms r stop by (subst ec_token.simps) (simp add: Let_def)
qed

lemma ec_token_length:
  "length (fst (ec_token file c1 c2 nsbc excluded)) \<le> length file"
proof (induction "file" arbitrary: c1 c2 excluded)
  case Nil
  show ?case
  proof (cases "wspace c1 \<or> c1 = EOF")
    case True
    then show ?thesis by (simp add: ec_token_stop)
  next
    case run: False
    show ?thesis
    proof (cases "c1 = 47 \<and> c2 = 47")
      case True
      then show ?thesis
        by (simp add: ec_token_marker ec_comment_Nil)
    next
      case False
      with run show ?thesis
        by (simp add: ec_token_step fgetc_def ec_token_stop)
    qed
  qed
next
  case (Cons b bs)
  show ?case
  proof (cases "wspace c1 \<or> c1 = EOF")
    case True
    then show ?thesis by (simp add: ec_token_stop)
  next
    case run: False
    show ?thesis
    proof (cases "c1 = 47 \<and> c2 = 47")
      case True
      obtain c3 file' c4 excluded' where
        r: "ec_comment (b # bs) 47 excluded = (c3, file', c4, excluded')"
        by (metis prod_cases4)
      from ec_comment_stops [OF r] have "length file' \<le> length (b # bs)"
        by simp
      with True r show ?thesis
        by (simp add: ec_token_marker)
    next
      case False
      with run have "ec_token (b # bs) c1 c2 nsbc excluded = ec_token bs (of_char b) c1 nsbc excluded"
        by (simp add: ec_token_step fgetc_def)
      with Cons.IH [of "of_char b" c1 excluded] show ?thesis
        by simp
    qed
  qed
qed

function ec_words_loop :: "(nat \<Rightarrow> int) \<Rightarrow> nat \<Rightarrow> char list \<Rightarrow> cint \<Rightarrow> cint" where
  "ec_words_loop junk k file excluded =
     (let (c, file1) = fgetc file in
      if c \<noteq> EOF then
        (if \<not> wspace c then
           (let c1 = c;
                c2 = junk k;
                no_space_before_comment = (c1 \<noteq> 47);
                (file2, excluded) = ec_token file1 c1 c2 no_space_before_comment excluded
            in ec_words_loop junk (Suc k) file2 excluded)
         else ec_words_loop junk k file1 excluded)
      else excluded)"
  by pat_completeness auto
termination
proof (relation "measure (\<lambda>(junk, k, file, excluded). length file)", goal_cases)
  case 1
  show ?case by simp
next
  case (2 junk k fl excluded x c file1 c1 c2 nsbc xa file2 excluded')
  from 2 have "ec_token file1 c1 c2 nsbc excluded = (file2, excluded')"
    by simp
  with ec_token_length [of file1 c1 c2 nsbc excluded] have "length file2 \<le> length file1"
    by simp
  moreover from 2 have "length file1 < length fl"
    by (cases fl) (auto simp: fgetc_def)
  ultimately show ?case
    by simp
next
  case 3
  then show ?case
    by (auto simp: fgetc_def EOF_def split: list.splits)
qed

declare ec_words_loop.simps [simp del]

lemma ec_words_loop_Nil:
  "ec_words_loop junk k [] excluded = excluded"
  by (subst ec_words_loop.simps) (simp add: fgetc_def)

lemma ec_words_loop_Cons:
  "ec_words_loop junk k (b # bs) excluded =
     (if \<not> wspace (of_char b) then
        (case ec_token bs (of_char b) (junk k) (of_char b \<noteq> (47::int)) excluded of
           (file2, excluded') \<Rightarrow> ec_words_loop junk (Suc k) file2 excluded')
      else ec_words_loop junk k bs excluded)"
  by (subst ec_words_loop.simps) (simp add: fgetc_def of_char_not_EOF Let_def split: prod.splits)


section \<open>The process: globals, files and output\<close>

text \<open>
  What the program prints is a list of items, one for each call of \<^verbatim>\<open>printf\<close>. A
  number printed by one of the three conditional calls of \<^verbatim>\<open>wc\<close>,
  \<^verbatim>\<open>if (L) printf("      %d", lines); if (W) ...; if (C) ...;\<close>
  is an item \<open>Count\<close> that carries the kind of count which that call prints.
\<close>

datatype count_kind = Line_count | Word_count | Byte_count

datatype out_item =
    Count count_kind int
  | File_name string
  | Total int int int
  | Newline

text \<open>
  The globals of the program, the files it can see, the trace of its \<^verbatim>\<open>fopen\<close>
  calls (name and success) and its standard output.
\<close>

record wstate =
  W :: bool
  L :: bool
  C :: bool
  CHARS_EXCLUDED :: cint
  WORDS_EXCLUDED :: cint
  TOTAL_WORDS :: cint
  TOTAL_LINES :: cint
  TOTAL_CHARS :: cint
  files :: "string \<Rightarrow> char list option"
  opens :: "(string \<times> bool) list"
  out :: "out_item list"

text \<open>
  What the program does not decide: the library's \<^verbatim>\<open>iswspace\<close>, whether the
  \<open>n\<close>-th call of \<^verbatim>\<open>fopen\<close> fails although the file exists, and the values found
  in variables that are read before they are assigned (\<open>indeterminate e n k\<close> is
  the value found at the \<open>k\<close>-th such declaration during the pass that made the
  \<open>n\<close>-th call of \<^verbatim>\<open>fopen\<close>).
\<close>

record env =
  libc_iswspace :: "int \<Rightarrow> bool"
  fopen_fails :: "nat \<Rightarrow> bool"
  indeterminate :: "nat \<Rightarrow> nat \<Rightarrow> int"

text \<open>
  The process stops by \<^verbatim>\<open>exit(status)\<close>, or runs into undefined behaviour
  (\<^verbatim>\<open>fprintf\<close> on a null stream).
\<close>

datatype stop = Exit int wstate | Undefined wstate

text \<open>The macro \<^verbatim>\<open>EXIT_FAILURE\<close> of \<^verbatim>\<open>stdlib.h\<close>, \<open>1\<close> on the usual platforms.\<close>

definition EXIT_FAILURE :: int where
  "EXIT_FAILURE = 1"

text \<open>
  \<^verbatim>\<open>fopen(filename, "rt")\<close> and \<^verbatim>\<open>fopen(filename, "rb")\<close>: the bytes of the file,
  or \<open>None\<close> for the null pointer. (Text and binary mode read the same bytes on
  POSIX systems.)
\<close>

definition fopen :: "env \<Rightarrow> string \<Rightarrow> wstate \<Rightarrow> char list option \<times> wstate" where
  "fopen e filename s =
     (let file = (if fopen_fails e (length (opens s)) then None else files s filename)
      in (file, s\<lparr>opens := opens s @ [(filename, file \<noteq> None)]\<rparr>))"

text \<open>
  \<^verbatim>\<open>fopen(filename, "wb")\<close>: creates or truncates the file unless the call fails.
\<close>

definition fopen_wb :: "env \<Rightarrow> string \<Rightarrow> wstate \<Rightarrow> bool \<times> wstate" where
  "fopen_wb e filename s =
     (if fopen_fails e (length (opens s)) then (False, s\<lparr>opens := opens s @ [(filename, False)]\<rparr>)
      else (True, s\<lparr>opens := opens s @ [(filename, True)], files := (files s)(filename \<mapsto> [])\<rparr>))"

text \<open>
  \<^verbatim>\<open>void wc(char* filename)\<close>.
\<close>

definition wc :: "env \<Rightarrow> string \<Rightarrow> wstate \<Rightarrow> stop + wstate" where
  "wc e filename s0 =
     (let (file, s) = fopen e filename s0 in
      case file of
        Some bytes \<Rightarrow>
          (let (words, lines, chars) = wc_loop (libc_iswspace e) bytes (0, 0, 0);
               s = (if L s then s\<lparr>out := out s @ [Count Line_count (sint lines)]\<rparr> else s);
               s = (if W s
                    then s\<lparr>out := out s @ [Count Word_count (sint (words - WORDS_EXCLUDED s))]\<rparr>
                    else s);
               s = (if C s
                    then s\<lparr>out := out s @ [Count Byte_count (sint (chars - CHARS_EXCLUDED s))]\<rparr>
                    else s);
               s = s\<lparr>TOTAL_WORDS := TOTAL_WORDS s + (words - WORDS_EXCLUDED s)\<rparr>;
               s = s\<lparr>TOTAL_LINES := TOTAL_LINES s + lines\<rparr>;
               s = s\<lparr>TOTAL_CHARS := TOTAL_CHARS s + (chars - CHARS_EXCLUDED s)\<rparr>;
               s = s\<lparr>WORDS_EXCLUDED := 0, CHARS_EXCLUDED := 0\<rparr>
           in Inr s)
      | None \<Rightarrow> Inl (Exit EXIT_FAILURE s))"

text \<open>
  \<^verbatim>\<open>void exclude_comments(char* filename)\<close>: the two passes, each on its own
  stream.
\<close>

definition exclude_comments :: "env \<Rightarrow> string \<Rightarrow> wstate \<Rightarrow> stop + wstate" where
  "exclude_comments e filename s0 =
     (let n = length (opens s0);
          (file, s) = fopen e filename s0 in
      case file of
        None \<Rightarrow> Inl (Exit EXIT_FAILURE s)
      | Some bytes \<Rightarrow>
          (let s = s\<lparr>CHARS_EXCLUDED := ec_chars_loop bytes (indeterminate e n 0) (CHARS_EXCLUDED s)\<rparr>;
               n = length (opens s);
               (file, s) = fopen e filename s in
           case file of
             None \<Rightarrow> Inl (Exit EXIT_FAILURE s)
           | Some bytes \<Rightarrow>
               Inr (s\<lparr>WORDS_EXCLUDED := ec_words_loop (indeterminate e n) 0 bytes (WORDS_EXCLUDED s)\<rparr>)))"


section \<open>\<^verbatim>\<open>main\<close>\<close>

text \<open>\<^verbatim>\<open>arg[0] == '-'\<close>; the first byte of an empty argument is the terminating NUL.\<close>

fun starts_dash :: "string \<Rightarrow> bool" where
  "starts_dash [] = False"
| "starts_dash (c # cs) = (c = CHR ''-'')"

text \<open>
  The loop over the characters of a flag argument, from index 1, on
  \<open>(ellide_comments, globals)\<close>:
  \<^verbatim>\<open>
    for (j = 1; j < strlen(arg); j++) {
      if (arg[j] == 'C') ellide_comments = true;
      else if (arg[j] == 'w') W = true;
      else if (arg[j] == 'l') L = true;
      else if (arg[j] == 'c') C = true;
    }\<close>
\<close>

fun flag_chars :: "char list \<Rightarrow> bool \<times> wstate \<Rightarrow> bool \<times> wstate" where
  "flag_chars [] (ellide_comments, s) = (ellide_comments, s)"
| "flag_chars (ch # rest) (ellide_comments, s) =
     flag_chars rest
       (if ch = CHR ''C'' then (True, s)
        else if ch = CHR ''w'' then (ellide_comments, s\<lparr>W := True\<rparr>)
        else if ch = CHR ''l'' then (ellide_comments, s\<lparr>L := True\<rparr>)
        else if ch = CHR ''c'' then (ellide_comments, s\<lparr>C := True\<rparr>)
        else (ellide_comments, s))"

text \<open>
  The loop over \<^verbatim>\<open>argv[1]\<close>, ..., \<^verbatim>\<open>argv[argc - 1]\<close>, on
  \<open>(ellide_comments, numfiles, globals)\<close>. \<^verbatim>\<open>numfiles\<close> is at most \<^verbatim>\<open>argc\<close>, so it
  never overflows; it is a natural number here.
  \<^verbatim>\<open>
    for (i = 1; i < argc; i++) {
      char* arg = argv[i];
      if (arg[0] == '-') { ... }
      else {
        numfiles++;
        if (ellide_comments) exclude_comments(arg);
        wc(arg);
        printf(" %s\n", arg);
      }
    }\<close>
\<close>

fun main_loop :: "env \<Rightarrow> string list \<Rightarrow> bool \<Rightarrow> nat \<Rightarrow> wstate \<Rightarrow> stop + (bool \<times> nat \<times> wstate)" where
  "main_loop e [] ellide_comments numfiles s = Inr (ellide_comments, numfiles, s)"
| "main_loop e (arg # args) ellide_comments numfiles s =
     (if starts_dash arg then
        (let (ellide_comments, s) = flag_chars (tl arg) (ellide_comments, s)
         in main_loop e args ellide_comments numfiles s)
      else
        (let numfiles = numfiles + 1 in
         case (if ellide_comments then exclude_comments e arg s else Inr s) of
           Inl halt \<Rightarrow> Inl halt
         | Inr s \<Rightarrow>
             (case wc e arg s of
                Inl halt \<Rightarrow> Inl halt
              | Inr s \<Rightarrow>
                  main_loop e args ellide_comments numfiles (s\<lparr>out := out s @ [File_name arg]\<rparr>))))"

text \<open>
  \<^verbatim>\<open>fgets(buffer, 10, stdin)\<close> reads at most nine bytes and stops behind a newline;
  \<open>fgets n\<close> returns the bytes read and the rest of the input. No bytes read is
  the null pointer.
\<close>

fun fgets :: "nat \<Rightarrow> char list \<Rightarrow> char list \<times> char list" where
  "fgets 0 input = ([], input)"
| "fgets (Suc n) [] = ([], [])"
| "fgets (Suc n) (b # bs) =
     (if of_char b = (10::int) then ([b], bs)
      else (let (buffer, rest) = fgets n bs in (b # buffer, rest)))"

lemma fgets_length:
  "fgets n input = (buffer, rest) \<Longrightarrow> buffer \<noteq> [] \<Longrightarrow> length rest < length input"
proof (induction n input arbitrary: buffer rest rule: fgets.induct)
  case (3 n b bs)
  show ?case
  proof (cases "of_char b = (10::int)")
    case True
    with 3 show ?thesis by auto
  next
    case False
    obtain buffer' rest' where r: "fgets n bs = (buffer', rest')"
      by (metis surj_pair)
    with 3 False have eq: "rest = rest'" "buffer = b # buffer'"
      by auto
    show ?thesis
    proof (cases "buffer' = []")
      case True
      with r have "rest' = bs"
        by (cases n; cases bs) (auto split: if_splits prod.splits)
      with eq show ?thesis by simp
    next
      case nonempty: False
      from "3.IH" [OF False r nonempty] eq show ?thesis
        by simp
    qed
  qed
qed simp_all

text \<open>
  The loop that gathers standard input,
  \<^verbatim>\<open>
    while(fgets(buffer, 10 , stdin)) {
      text = realloc( text, strlen(text)+1+strlen(buffer) );
      if(!text){}
      strcat( text, buffer );
    }\<close>
  \<^verbatim>\<open>strcat\<close> copies the buffer up to its first NUL byte. Memory is taken to be
  sufficient.
\<close>

function read_stdin :: "char list \<Rightarrow> char list \<Rightarrow> char list" where
  "read_stdin input text =
     (let (buffer, rest) = fgets 9 input in
      if buffer \<noteq> [] then read_stdin rest (text @ takeWhile (\<lambda>b. of_char b \<noteq> (0::int)) buffer)
      else text)"
  by pat_completeness auto
termination
proof (relation "measure (\<lambda>(input, text). length input)", goal_cases)
  case 1
  show ?case by simp
next
  case (2 inp acc x buffer rest)
  then have "fgets 9 inp = (buffer, rest)"
    by simp
  from fgets_length [OF this] 2 show ?case
    by simp
qed

declare read_stdin.simps [simp del]

text \<open>
  \<^verbatim>\<open>int main(int argc, char* argv[], char* env[])\<close>, on the arguments
  \<^verbatim>\<open>argv[1]\<close>, ..., \<^verbatim>\<open>argv[argc - 1]\<close> (so \<^verbatim>\<open>argc\<close> is at least 1), the bytes waiting
  on standard input and the files present when the process starts.
\<close>

definition initial :: "(string \<Rightarrow> char list option) \<Rightarrow> wstate" where
  "initial fs =
     \<lparr>W = False, L = False, C = False, CHARS_EXCLUDED = 0, WORDS_EXCLUDED = 0,
      TOTAL_WORDS = 0, TOTAL_LINES = 0, TOTAL_CHARS = 0, files = fs, opens = [], out = []\<rparr>"

definition main :: "env \<Rightarrow> char list \<Rightarrow> (string \<Rightarrow> char list option) \<Rightarrow> string list \<Rightarrow> stop" where
  "main e input fs args =
     (let s = initial fs;
          s = (if (case args of [] \<Rightarrow> True | arg1 # _ \<Rightarrow> \<not> starts_dash arg1 \<or> arg1 = ''-C'')
               then s\<lparr>W := True, L := True, C := True\<rparr> else s)
      in case main_loop e args False 0 s of
           Inl halt \<Rightarrow> halt
         | Inr (ellide_comments, numfiles, s) \<Rightarrow>
             (let s = (if numfiles > 1
                       then s\<lparr>out := out s @
                              [Total (sint (TOTAL_LINES s)) (sint (TOTAL_WORDS s))
                                 (sint (TOTAL_CHARS s))]\<rparr>
                       else s)
              in if numfiles = 0 then
                   (let filename = ''temp.txt'';
                        (file, s) = fopen_wb e filename s;
                        text = read_stdin input []
                    in if \<not> file then Undefined s
                       else
                         (let s = s\<lparr>files := (files s)(filename \<mapsto> text)\<rparr> in
                          case (if ellide_comments then exclude_comments e filename s else Inr s) of
                            Inl halt \<Rightarrow> halt
                          | Inr s \<Rightarrow>
                              (case wc e filename s of
                                 Inl halt \<Rightarrow> halt
                               | Inr s \<Rightarrow>
                                   (let s = s\<lparr>out := out s @ [Newline]\<rparr>;
                                        s = s\<lparr>files := (files s)(filename := None)\<rparr>
                                    in Exit 0 s))))
                 else Exit 0 s))"


section \<open>What the claims speak of\<close>

text \<open>The number of newline bytes (byte 10) of a stream.\<close>

definition newlines :: "char list \<Rightarrow> nat" where
  "newlines bytes = length (filter (\<lambda>b. of_char b = (10::int)) bytes)"

text \<open>
  The positions at which a maximal run of bytes that are not white space begins: the
  byte is not white space, and it is the first byte or the byte before it is white
  space. There is one such position for each maximal run.
\<close>

definition word_starts :: "(int \<Rightarrow> bool) \<Rightarrow> char list \<Rightarrow> nat list" where
  "word_starts iswspace bytes =
     filter (\<lambda>i. \<not> iswspace (of_char (bytes ! i)) \<and> (i = 0 \<or> iswspace (of_char (bytes ! (i - 1)))))
       [0..<length bytes]"

text \<open>
  The same number by recursion: the runs that begin in a stream, given whether the
  byte before it belongs to a run.
\<close>

fun runs_after :: "(int \<Rightarrow> bool) \<Rightarrow> bool \<Rightarrow> char list \<Rightarrow> nat" where
  "runs_after iswspace inword [] = 0"
| "runs_after iswspace inword (b # bs) =
     (if iswspace (of_char b) then runs_after iswspace False bs
      else (if inword then 0 else 1) + runs_after iswspace True bs)"


text \<open>
  The claim about excluded characters as it is worded: a sum over every position at
  which two consecutive \<^verbatim>\<open>/\<close> bytes occur, of 2 plus the number of bytes behind the
  marker up to the next newline or the end of the stream.
\<close>

definition marker_at :: "char list \<Rightarrow> nat \<Rightarrow> bool" where
  "marker_at bytes i \<longleftrightarrow>
     Suc i < length bytes \<and> of_char (bytes ! i) = (47::int) \<and> of_char (bytes ! Suc i) = (47::int)"

definition marker_sum :: "char list \<Rightarrow> nat" where
  "marker_sum bytes =
     (\<Sum>i\<leftarrow>[0..<length bytes].
        if marker_at bytes i
        then 2 + length (takeWhile (\<lambda>b. of_char b \<noteq> (10::int)) (drop (i + 2) bytes))
        else 0)"

text \<open>
  The lines of a stream: the bytes up to the next newline, and the lines of what
  follows that newline.
\<close>

function lines_of :: "char list \<Rightarrow> char list list" where
  "lines_of bytes =
     (case dropWhile (\<lambda>b. of_char b \<noteq> (10::int)) bytes of
        [] \<Rightarrow> [bytes]
      | newline # rest \<Rightarrow> takeWhile (\<lambda>b. of_char b \<noteq> (10::int)) bytes # lines_of rest)"
  by pat_completeness auto
termination
proof (relation "measure length", goal_cases)
  case 1
  show ?case by simp
next
  case (2 bytes newline rest)
  have "length (dropWhile (\<lambda>b. of_char b \<noteq> (10::int)) bytes) \<le> length bytes"
    by (rule length_dropWhile_le)
  with 2 show ?case
    by simp
qed

declare lines_of.simps [simp del]

text \<open>
  The comment of a line: the line from its first two consecutive \<^verbatim>\<open>/\<close> bytes on,
  that is the marker and the bytes behind it; nothing if the line has no marker.
  \<open>comment_chars\<close> adds the lengths of the comments of all lines.
\<close>

fun comment_part :: "char list \<Rightarrow> char list" where
  "comment_part [] = []"
| "comment_part [b] = []"
| "comment_part (b # b' # bs) =
     (if of_char b = (47::int) \<and> of_char b' = (47::int) then b # b' # bs
      else comment_part (b' # bs))"

definition comment_chars :: "char list \<Rightarrow> nat" where
  "comment_chars bytes = (\<Sum>line\<leftarrow>lines_of bytes. length (comment_part line))"


text \<open>
  A platform for concrete runs: the library predicate of the \<^verbatim>\<open>"C"\<close> locale (the six
  bytes), no call of \<^verbatim>\<open>fopen\<close> fails on a file that exists, and unassigned
  variables hold 0.
\<close>

definition c_locale :: env where
  "c_locale = \<lparr>libc_iswspace = wspace, fopen_fails = (\<lambda>n. False), indeterminate = (\<lambda>n k. 0)\<rparr>"

text \<open>The globals, the trace and the output at the moment the process stops.\<close>

fun final :: "stop \<Rightarrow> wstate" where
  "final (Exit status s) = s"
| "final (Undefined s) = s"

text \<open>The items printed by the \<^verbatim>\<open>printf\<close> of the totals line.\<close>

fun is_total :: "out_item \<Rightarrow> bool" where
  "is_total (Total l w c) = True"
| "is_total item = False"

text \<open>
  What \<^verbatim>\<open>main\<close> runs for one file, named on the command line or staged from standard
  input: \<^verbatim>\<open>if (ellide_comments) exclude_comments(arg); wc(arg);\<close>
\<close>

definition count_file :: "env \<Rightarrow> bool \<Rightarrow> string \<Rightarrow> wstate \<Rightarrow> stop + wstate" where
  "count_file e ellide_comments filename s =
     (case (if ellide_comments then exclude_comments e filename s else Inr s) of
        Inl halt \<Rightarrow> Inl halt
      | Inr s' \<Rightarrow> wc e filename s')"

text \<open>
  The last call of \<^verbatim>\<open>fopen\<close> failed and every call before it succeeded: the process
  opened nothing after the first failure.
\<close>

definition failed_at_last_open :: "wstate \<Rightarrow> bool" where
  "failed_at_last_open s \<longleftrightarrow>
     opens s \<noteq> [] \<and> \<not> snd (last (opens s)) \<and> list_all snd (butlast (opens s))"

text \<open>The arguments that \<^verbatim>\<open>main\<close> takes for file names.\<close>

definition file_args :: "string list \<Rightarrow> string list" where
  "file_args args = filter (\<lambda>arg. \<not> starts_dash arg) args"

text \<open>
  The test at the head of \<^verbatim>\<open>main\<close> that turns all three counts on: no argument, or a
  first argument that does not begin with \<^verbatim>\<open>-\<close>, or a first argument that is exactly
  \<^verbatim>\<open>-C\<close>.
\<close>

definition shows_all_by_default :: "string list \<Rightarrow> bool" where
  "shows_all_by_default args \<longleftrightarrow>
     (case args of [] \<Rightarrow> True | arg1 # _ \<Rightarrow> \<not> starts_dash arg1 \<or> arg1 = ''-C'')"

text \<open>The globals when the loop of \<^verbatim>\<open>main\<close> is entered.\<close>

definition start :: "(string \<Rightarrow> char list option) \<Rightarrow> string list \<Rightarrow> wstate" where
  "start fs args =
     (if shows_all_by_default args then (initial fs)\<lparr>W := True, L := True, C := True\<rparr>
      else initial fs)"

subsection \<open>The adjusted counts of the files of a run\<close>

text \<open>
  The adjusted counts of one file, in the order (lines, words, bytes): the raw counts
  of the counting scan, the words and the bytes each less what the pre-pass excludes
  for this file alone, starting from nothing. \<open>n\<close> is the number of \<^verbatim>\<open>fopen\<close> calls
  the process has made before it turns to the file; it selects what the unassigned
  variables of the two passes hold.
\<close>

definition adjusted :: "env \<Rightarrow> nat \<Rightarrow> bool \<Rightarrow> char list \<Rightarrow> cint \<times> cint \<times> cint" where
  "adjusted e n ellide_comments bytes =
     (let (words, lines, chars) = wc_loop (libc_iswspace e) bytes (0, 0, 0);
          excluded_chars =
            (if ellide_comments then ec_chars_loop bytes (indeterminate e n 0) 0 else 0);
          excluded_words =
            (if ellide_comments then ec_words_loop (indeterminate e (Suc n)) 0 bytes 0 else 0)
      in (lines, words - excluded_words, chars - excluded_chars))"

text \<open>
  No \<^verbatim>\<open>fopen\<close> call made for one file fails: three calls with comment exclusion (one
  for each pass and one for the counting scan), one call without.
\<close>

definition opens_ok :: "env \<Rightarrow> nat \<Rightarrow> bool \<Rightarrow> bool" where
  "opens_ok e n ellide_comments \<longleftrightarrow>
     (if ellide_comments
      then \<not> fopen_fails e n \<and> \<not> fopen_fails e (n + 1) \<and> \<not> fopen_fails e (n + 2)
      else \<not> fopen_fails e n)"

text \<open>
  The counts of one file as its line shows them: of the adjusted counts those whose
  flag is set, in the order lines, words, bytes.
\<close>

definition counts_line :: "bool \<times> bool \<times> bool \<Rightarrow> cint \<times> cint \<times> cint \<Rightarrow> out_item list" where
  "counts_line shown counts =
     (case shown of (show_lines, show_words, show_bytes) \<Rightarrow>
      case counts of (lines, words, bytes) \<Rightarrow>
        (if show_lines then [Count Line_count (sint lines)] else []) @
        (if show_words then [Count Word_count (sint words)] else []) @
        (if show_bytes then [Count Byte_count (sint bytes)] else []))"

text \<open>
  The report of a run on the files \<open>fs\<close>: for each file argument in turn, up to the
  first one that cannot be opened, which counts are to be shown (the flags set by then,
  for lines, words and bytes), the adjusted counts of the file, and its name. A flag
  argument sets the flags of its characters for the files behind it, and \<^verbatim>\<open>C\<close> turns
  comment exclusion on for them.
\<close>

fun report ::
  "env \<Rightarrow> (string \<Rightarrow> char list option) \<Rightarrow> bool \<times> bool \<times> bool \<Rightarrow> bool \<Rightarrow> nat \<Rightarrow> string list \<Rightarrow>
     ((bool \<times> bool \<times> bool) \<times> (cint \<times> cint \<times> cint) \<times> string) list" where
  "report e fs shown ellide_comments n [] = []"
| "report e fs shown ellide_comments n (arg # args) =
     (if starts_dash arg then
        report e fs
          (case shown of (show_lines, show_words, show_bytes) \<Rightarrow>
             (show_lines \<or> CHR ''l'' \<in> set (tl arg),
              show_words \<or> CHR ''w'' \<in> set (tl arg),
              show_bytes \<or> CHR ''c'' \<in> set (tl arg)))
          (ellide_comments \<or> CHR ''C'' \<in> set (tl arg)) n args
      else
        (case fs arg of
           None \<Rightarrow> []
         | Some bytes \<Rightarrow>
             if opens_ok e n ellide_comments
             then (shown, adjusted e n ellide_comments bytes, arg) #
                  report e fs shown ellide_comments (n + (if ellide_comments then 3 else 1)) args
             else []))"

text \<open>What is shown when the first file is reached if no flag argument precedes it.\<close>

definition start_shown :: "string list \<Rightarrow> bool \<times> bool \<times> bool" where
  "start_shown args =
     (shows_all_by_default args, shows_all_by_default args, shows_all_by_default args)"

text \<open>The per-file lines of a report: for each file its counts as shown, then its name.\<close>

definition file_lines ::
  "((bool \<times> bool \<times> bool) \<times> (cint \<times> cint \<times> cint) \<times> string) list \<Rightarrow> out_item list" where
  "file_lines rep =
     concat (map (\<lambda>(shown, counts, name). counts_line shown counts @ [File_name name]) rep)"

text \<open>The three columns of a report: the adjusted lines, words and bytes of its files.\<close>

definition report_lines ::
  "((bool \<times> bool \<times> bool) \<times> (cint \<times> cint \<times> cint) \<times> string) list \<Rightarrow> cint list" where
  "report_lines rep = map (\<lambda>(shown, counts, name). fst counts) rep"

definition report_words ::
  "((bool \<times> bool \<times> bool) \<times> (cint \<times> cint \<times> cint) \<times> string) list \<Rightarrow> cint list" where
  "report_words rep = map (\<lambda>(shown, counts, name). fst (snd counts)) rep"

definition report_bytes ::
  "((bool \<times> bool \<times> bool) \<times> (cint \<times> cint \<times> cint) \<times> string) list \<Rightarrow> cint list" where
  "report_bytes rep = map (\<lambda>(shown, counts, name). snd (snd counts)) rep"

text \<open>
  \<open>exact_sum xs t\<close>: the number \<open>t\<close> is the sum of the numbers \<open>xs\<close>, read as C \<^verbatim>\<open>int\<close>,
  whenever that sum is in the range of \<^verbatim>\<open>int\<close>.
\<close>

definition exact_sum :: "cint list \<Rightarrow> int \<Rightarrow> bool" where
  "exact_sum xs t \<longleftrightarrow>
     (- (2 ^ 31) \<le> (\<Sum>x\<leftarrow>xs. sint x) \<and> (\<Sum>x\<leftarrow>xs. sint x) < 2 ^ 31 \<longrightarrow> t = (\<Sum>x\<leftarrow>xs. sint x))"

text \<open>Two files for concrete runs.\<close>

definition two_files :: "string \<Rightarrow> char list option" where
  "two_files name =
     (if name = ''a'' then Some (''x // y'' @ [CHR 0x0A])
      else if name = ''b'' then Some (''p q'' @ [CHR 0x0A]) else None)"

subsection \<open>Flags and the lines of the output\<close>

text \<open>
  A flag character is given: it occurs behind the first character of an argument
  that begins with \<^verbatim>\<open>-\<close>. The flag arguments come first: no argument that begins
  with \<^verbatim>\<open>-\<close> follows a file name.
\<close>

definition flag_given :: "char \<Rightarrow> string list \<Rightarrow> bool" where
  "flag_given ch args \<longleftrightarrow> (\<exists>arg\<in>set args. starts_dash arg \<and> ch \<in> set (tl arg))"








text \<open>A file system in which every name holds the same line.\<close>

definition hello :: "string \<Rightarrow> char list option" where
  "hello name = Some (''hello world'' @ [CHR 0x0A])"


section \<open>The counting scan: lines, words and bytes\<close>

lemma sint_of_nat_32:
  "n < 2 ^ 31 \<Longrightarrow> sint (of_nat n :: cint) = int n"
  by (simp add: signed_of_nat signed_take_bit_int_eq_self)

lemma wc_word_newlines:
  assumes "iswspace 10"
  shows "wc_word iswspace bytes chars = (c, file2, chars') \<Longrightarrow>
           newlines bytes = (if c = 10 then 1 else 0) + newlines file2"
proof (induction bytes arbitrary: chars)
  case Nil
  then show ?case
    by (auto simp: wc_word_Nil newlines_def EOF_def)
next
  case (Cons b bs)
  show ?case
  proof (cases "iswspace (of_char b)")
    case True
    with Cons.prems show ?thesis
      by (auto simp: wc_word_Cons newlines_def)
  next
    case False
    with assms have "of_char b \<noteq> (10::int)"
      by auto
    with False Cons.prems Cons.IH [of "chars + 1"] show ?thesis
      by (simp add: wc_word_Cons newlines_def)
  qed
qed

lemma wc_loop_lines_from:
  assumes "iswspace 10"
  shows "fst (snd (wc_loop iswspace bytes (words, lines, chars))) = lines + of_nat (newlines bytes)"
proof (induction bytes arbitrary: words lines chars rule: length_induct)
  case (1 bytes)
  show ?case
  proof (cases bytes)
    case Nil
    then show ?thesis
      by (simp add: wc_loop_Nil newlines_def)
  next
    case (Cons b bs)
    show ?thesis
    proof (cases "iswspace (of_char b)")
      case True
      have "length bs < length bytes"
        using Cons by simp
      with 1 have "fst (snd (wc_loop iswspace bs
             (words, if of_char b = (10::int) then lines + 1 else lines, chars + 1))) =
           (if of_char b = (10::int) then lines + 1 else lines) + of_nat (newlines bs)"
        by blast
      with True Cons show ?thesis
        by (simp add: wc_loop_Cons newlines_def)
    next
      case False
      obtain c file2 chars' where r: "wc_word iswspace bs (chars + 1) = (c, file2, chars')"
        by (metis prod_cases3)
      have "length file2 \<le> length bs"
        using wc_word_length [of iswspace bs "chars + 1"] r by simp
      then have "length file2 < length bytes"
        using Cons by simp
      with 1 have "fst (snd (wc_loop iswspace file2
             (words + 1, if c = 10 then lines + 1 else lines,
              if wspace c then chars' + 1 else chars'))) =
           (if c = 10 then lines + 1 else lines) + of_nat (newlines file2)"
        by blast
      moreover from assms False have "of_char b \<noteq> (10::int)"
        by auto
      then have "newlines bytes = newlines bs"
        using Cons by (simp add: newlines_def)
      moreover note wc_word_newlines [OF assms r]
      ultimately show ?thesis
        using False Cons r by (simp add: wc_loop_Cons)
    qed
  qed
qed

text \<open>
  C4. For every byte stream, the line counter of the counting scan is the number of
  newline bytes (byte 10) of the stream, whatever the words are and whether or not
  the stream ends with a newline. The library predicate must classify the newline as
  white space, as it does in every locale; the counter is a 32-bit \<^verbatim>\<open>int\<close>, so the
  equality is one of 32-bit numbers, and of integers as long as there are fewer than
  \<open>2 ^ 31\<close> newlines.
\<close>

theorem wc_loop_lines:
  assumes "iswspace 10"
    and "wc_loop iswspace bytes (0, 0, 0) = (words, lines, chars)"
  shows "lines = of_nat (newlines bytes) \<and>
         (newlines bytes < 2 ^ 31 \<longrightarrow> sint lines = int (newlines bytes))"
proof -
  have "lines = of_nat (newlines bytes)"
    using wc_loop_lines_from [of iswspace bytes 0 0 0] assms by simp
  then show ?thesis
    by (simp add: sint_of_nat_32)
qed

theorem wc_loop_lines_witness:
  "wspace 10 \<and>
   wc_loop wspace (''ab c'' @ [CHR 0x0A] @ ''d'' @ [CHR 0x0A, CHR 0x0A] @ ''e'') (0, 0, 0) = (4, 3, 9) \<and>
   (3 :: cint) = of_nat (newlines (''ab c'' @ [CHR 0x0A] @ ''d'' @ [CHR 0x0A, CHR 0x0A] @ ''e'')) \<and>
   sint (3 :: cint) = int (newlines (''ab c'' @ [CHR 0x0A] @ ''d'' @ [CHR 0x0A, CHR 0x0A] @ ''e''))"
proof -
  have w: "wspace 10"
    by (simp add: wspace_def)
  have r: "wc_loop wspace (''ab c'' @ [CHR 0x0A] @ ''d'' @ [CHR 0x0A, CHR 0x0A] @ ''e'') (0, 0, 0) = (4, 3, 9)"
    by (simp add: wc_loop_Cons wc_loop_Nil wc_word_Cons wc_word_Nil wspace_def EOF_def)
  have n: "newlines (''ab c'' @ [CHR 0x0A] @ ''d'' @ [CHR 0x0A, CHR 0x0A] @ ''e'') = 3"
    by (simp add: newlines_def)
  from wc_loop_lines [of wspace, OF w r] w r n show ?thesis
    by simp
qed

lemma runs_after_word_starts:
  "length (filter (\<lambda>i. \<not> iswspace (of_char (bytes ! i)) \<and>
                        (if i = 0 then \<not> inword else iswspace (of_char (bytes ! (i - 1)))))
             [0..<length bytes]) =
   runs_after iswspace inword bytes"
proof (induction bytes arbitrary: inword)
  case Nil
  show ?case by simp
next
  case (Cons b bs)
  let ?P = "\<lambda>i. \<not> iswspace (of_char ((b # bs) ! i)) \<and>
                 (if i = 0 then \<not> inword else iswspace (of_char ((b # bs) ! (i - 1))))"
  let ?Q = "\<lambda>i. \<not> iswspace (of_char (bs ! i)) \<and>
                 (if i = 0 then \<not> (\<not> iswspace (of_char b)) else iswspace (of_char (bs ! (i - 1))))"
  have upt: "[0..<length (b # bs)] = 0 # map Suc [0..<length bs]"
    by (simp add: upt_conv_Cons map_Suc_upt del: upt_Suc)
  have "filter ?P (map Suc [0..<length bs]) = map Suc (filter (?P \<circ> Suc) [0..<length bs])"
    by (simp add: filter_map)
  moreover have "filter (?P \<circ> Suc) [0..<length bs] = filter ?Q [0..<length bs]"
    by (rule filter_cong) (auto simp: nth_Cons split: nat.splits)
  ultimately have "length (filter ?P (map Suc [0..<length bs])) =
      runs_after iswspace (\<not> iswspace (of_char b)) bs"
    using Cons.IH [of "\<not> iswspace (of_char b)"] by simp
  then show ?case
    unfolding upt by simp
qed

lemma length_word_starts:
  "length (word_starts iswspace bytes) = runs_after iswspace False bytes"
proof -
  have "word_starts iswspace bytes =
      filter (\<lambda>i. \<not> iswspace (of_char (bytes ! i)) \<and>
                   (if i = 0 then \<not> False else iswspace (of_char (bytes ! (i - 1)))))
        [0..<length bytes]"
    unfolding word_starts_def by (rule filter_cong) auto
  then show ?thesis
    using runs_after_word_starts [of iswspace bytes False] by simp
qed

lemma wc_word_runs:
  "wc_word iswspace bytes chars = (c, file2, chars') \<Longrightarrow>
     runs_after iswspace True bytes = runs_after iswspace False file2"
proof (induction bytes arbitrary: chars)
  case Nil
  then show ?case
    by (auto simp: wc_word_Nil)
next
  case (Cons b bs)
  then show ?case
    by (cases "iswspace (of_char b)") (auto simp: wc_word_Cons)
qed

lemma wc_loop_words_from:
  "fst (wc_loop iswspace bytes (words, lines, chars)) =
     words + of_nat (runs_after iswspace False bytes)"
proof (induction bytes arbitrary: words lines chars rule: length_induct)
  case (1 bytes)
  show ?case
  proof (cases bytes)
    case Nil
    then show ?thesis
      by (simp add: wc_loop_Nil)
  next
    case (Cons b bs)
    show ?thesis
    proof (cases "iswspace (of_char b)")
      case True
      have "length bs < length bytes"
        using Cons by simp
      with 1 have "fst (wc_loop iswspace bs
             (words, if of_char b = (10::int) then lines + 1 else lines, chars + 1)) =
           words + of_nat (runs_after iswspace False bs)"
        by blast
      with True Cons show ?thesis
        by (simp add: wc_loop_Cons)
    next
      case False
      obtain c file2 chars' where r: "wc_word iswspace bs (chars + 1) = (c, file2, chars')"
        by (metis prod_cases3)
      have "length file2 \<le> length bs"
        using wc_word_length [of iswspace bs "chars + 1"] r by simp
      then have "length file2 < length bytes"
        using Cons by simp
      with 1 have "fst (wc_loop iswspace file2
             (words + 1, if c = 10 then lines + 1 else lines,
              if wspace c then chars' + 1 else chars')) =
           words + 1 + of_nat (runs_after iswspace False file2)"
        by blast
      with False Cons r wc_word_runs [OF r] show ?thesis
        by (simp add: wc_loop_Cons)
    qed
  qed
qed

lemma runs_after_no_space:
  "\<forall>b\<in>set bytes. \<not> iswspace (of_char b) \<Longrightarrow> runs_after iswspace True bytes = 0"
  by (induction bytes) simp_all

text \<open>
  C5. For every byte stream, the word counter of the counting scan is the number of
  maximal runs of bytes that the broad predicate does not classify as white space; a
  run that reaches the end of the stream is counted without a delimiter behind it.
  The empty stream gives \<open>(0, 0, 0)\<close>, and a stream that is not empty and holds no
  white space gives one word. The counter is a 32-bit \<^verbatim>\<open>int\<close>: the equality is one
  of 32-bit numbers, and of integers below \<open>2 ^ 31\<close> runs.
\<close>

theorem wc_loop_words:
  "fst (wc_loop iswspace bytes (0, 0, 0)) = of_nat (length (word_starts iswspace bytes)) \<and>
   (length (word_starts iswspace bytes) < 2 ^ 31 \<longrightarrow>
      sint (fst (wc_loop iswspace bytes (0, 0, 0))) = int (length (word_starts iswspace bytes))) \<and>
   wc_loop iswspace [] (0, 0, 0) = (0, 0, 0) \<and>
   (bytes \<noteq> [] \<and> (\<forall>b\<in>set bytes. \<not> iswspace (of_char b)) \<longrightarrow>
      fst (wc_loop iswspace bytes (0, 0, 0)) = 1)"
proof -
  have eq: "fst (wc_loop iswspace bytes (0, 0, 0)) = of_nat (length (word_starts iswspace bytes))"
    by (simp add: wc_loop_words_from length_word_starts)
  have one: "fst (wc_loop iswspace bytes (0, 0, 0)) = 1"
    if "bytes \<noteq> []" and "\<forall>b\<in>set bytes. \<not> iswspace (of_char b)"
  proof -
    from that obtain b bs where "bytes = b # bs"
      by (cases bytes) auto
    with that have "runs_after iswspace False bytes = 1"
      by (simp add: runs_after_no_space)
    then show ?thesis
      by (simp add: wc_loop_words_from)
  qed
  from eq one show ?thesis
    by (simp add: sint_of_nat_32 wc_loop_Nil)
qed

theorem wc_loop_words_witness:
  "length (word_starts wspace ''to be  or'') < 2 ^ 31 \<and>
   sint (fst (wc_loop wspace ''to be  or'' (0, 0, 0))) = int (length (word_starts wspace ''to be  or'')) \<and>
   word_starts wspace ''to be  or'' = [0, 3, 7] \<and>
   ''word'' \<noteq> [] \<and> list_all (\<lambda>b. \<not> wspace (of_char b)) ''word'' \<and>
   fst (wc_loop wspace ''word'' (0, 0, 0)) = 1"
proof -
  have s: "word_starts wspace ''to be  or'' = [0, 3, 7]"
    by (simp add: word_starts_def wspace_def upt_conv_Cons)
  have p: "''word'' \<noteq> [] \<and> (\<forall>b\<in>set ''word''. \<not> wspace (of_char b))"
    by (simp add: wspace_def)
  have a: "sint (fst (wc_loop wspace ''to be  or'' (0, 0, 0))) =
      int (length (word_starts wspace ''to be  or''))"
    using wc_loop_words [of wspace "''to be  or''"] s by simp
  have b: "fst (wc_loop wspace ''word'' (0, 0, 0)) = 1"
    using wc_loop_words [of wspace "''word''"] p by blast
  from a b s p show ?thesis
    by simp
qed

text \<open>
  The byte counter. The byte that ends a word is counted by \<^verbatim>\<open>if (wspace(c)) chars++;\<close>,
  with the narrow predicate, although the loop before it stops on the broad one.
  Where every byte that is white space for the library is one of the six bytes of
  \<^const>\<open>wspace\<close>, every byte is counted once.
\<close>

lemma wc_word_chars:
  assumes "\<forall>b. iswspace (of_char b) \<longrightarrow> wspace (of_char b)"
  shows "wc_word iswspace bytes chars = (c, file2, chars') \<Longrightarrow>
           (if wspace c then chars' + 1 else chars') + of_nat (length file2) =
             chars + of_nat (length bytes)"
proof (induction bytes arbitrary: chars)
  case Nil
  then show ?case
    by (auto simp: wc_word_Nil wspace_def EOF_def)
next
  case (Cons b bs)
  show ?case
  proof (cases "iswspace (of_char b)")
    case True
    with assms have "wspace (of_char b)"
      by blast
    with True Cons.prems show ?thesis
      by (auto simp: wc_word_Cons)
  next
    case False
    with Cons.prems Cons.IH [of "chars + 1"] show ?thesis
      by (simp add: wc_word_Cons)
  qed
qed

lemma wc_loop_chars_from:
  assumes "\<forall>b. iswspace (of_char b) \<longrightarrow> wspace (of_char b)"
  shows "snd (snd (wc_loop iswspace bytes (words, lines, chars))) = chars + of_nat (length bytes)"
proof (induction bytes arbitrary: words lines chars rule: length_induct)
  case (1 bytes)
  show ?case
  proof (cases bytes)
    case Nil
    then show ?thesis
      by (simp add: wc_loop_Nil)
  next
    case (Cons b bs)
    show ?thesis
    proof (cases "iswspace (of_char b)")
      case True
      have "length bs < length bytes"
        using Cons by simp
      with 1 have "snd (snd (wc_loop iswspace bs
             (words, if of_char b = (10::int) then lines + 1 else lines, chars + 1))) =
           chars + 1 + of_nat (length bs)"
        by blast
      with True Cons show ?thesis
        by (simp add: wc_loop_Cons)
    next
      case False
      obtain c file2 chars' where r: "wc_word iswspace bs (chars + 1) = (c, file2, chars')"
        by (metis prod_cases3)
      have "length file2 \<le> length bs"
        using wc_word_length [of iswspace bs "chars + 1"] r by simp
      then have "length file2 < length bytes"
        using Cons by simp
      with 1 have "snd (snd (wc_loop iswspace file2
             (words + 1, if c = 10 then lines + 1 else lines,
              if wspace c then chars' + 1 else chars'))) =
           (if wspace c then chars' + 1 else chars') + of_nat (length file2)"
        by blast
      with False Cons r wc_word_chars [OF assms r] show ?thesis
        by (simp add: wc_loop_Cons)
    qed
  qed
qed

lemma wc_loop_chars_agree:
  assumes "\<forall>b. iswspace (of_char b) \<longrightarrow> wspace (of_char b)"
    and "wc_loop iswspace bytes (0, 0, 0) = (words, lines, chars)"
  shows "chars = of_nat (length bytes)"
  using wc_loop_chars_from [OF assms(1), of bytes 0 0 0] assms(2) by simp

text \<open>
  C6. The claim is that the byte counter of the counting scan is the number of bytes
  of the stream whichever predicate classifies the bytes. With a library predicate
  that also takes the bytes 133 and 160 for white space (the header of \<^verbatim>\<open>mywc.c\<close>
  reports both for the \<^verbatim>\<open>wc\<close> of MacOS; 133 is the control NEL, white space in
  Unicode), the two bytes \<open>a\<close>, 133 are read and one is counted: byte 133 ends the
  word and is not in the narrow set.
\<close>

theorem wc_loop_chars_undercount:
  "wc_loop (\<lambda>c. wspace c \<or> c = 133 \<or> c = 160) [CHR ''a'', CHR 0x85] (0, 0, 0) = (1, 0, 1) \<and>
   length [CHR ''a'', CHR 0x85] = 2"
  by (simp add: wc_loop_Cons wc_loop_Nil wc_word_Cons wc_word_Nil wspace_def EOF_def)

section \<open>The first pass: excluded characters\<close>

lemma lines_of_Nil:
  "lines_of [] = [[]]"
  by (subst lines_of.simps) simp

lemma lines_of_Cons:
  "lines_of (b # bs) =
     (if of_char b = (10::int) then [] # lines_of bs
      else (b # hd (lines_of bs)) # tl (lines_of bs))"
proof (cases "of_char b = (10::int)")
  case True
  then show ?thesis
    by (subst lines_of.simps) simp
next
  case False
  show ?thesis
  proof (cases "dropWhile (\<lambda>b. of_char b \<noteq> (10::int)) bs")
    case Nil
    have "lines_of bs = [bs]"
      by (subst lines_of.simps) (simp add: Nil del: dropWhile_eq_Nil_conv)
    moreover have "lines_of (b # bs) = [b # bs]"
      by (subst lines_of.simps) (simp add: Nil False del: dropWhile_eq_Nil_conv)
    ultimately show ?thesis
      using False by simp
  next
    case (Cons newline rest)
    have "lines_of bs = takeWhile (\<lambda>b. of_char b \<noteq> (10::int)) bs # lines_of rest"
      by (subst lines_of.simps) (simp add: Cons)
    moreover have "lines_of (b # bs) =
        (b # takeWhile (\<lambda>b. of_char b \<noteq> (10::int)) bs) # lines_of rest"
      by (subst lines_of.simps) (simp add: Cons False)
    ultimately show ?thesis
      using False by simp
  qed
qed

lemma lines_of_not_Nil:
  "lines_of bytes \<noteq> []"
  by (cases bytes) (simp_all add: lines_of_Nil lines_of_Cons)

lemma comment_part_skip:
  "of_char b \<noteq> (47::int) \<Longrightarrow> comment_part (b # line) = comment_part line"
  by (cases line) simp_all

lemma comment_chars_Nil:
  "comment_chars [] = 0"
  by (simp add: comment_chars_def lines_of_Nil)

lemma comment_chars_single:
  "comment_chars [b] = 0"
  by (simp add: comment_chars_def lines_of_Nil lines_of_Cons)

lemma comment_chars_skip:
  assumes "of_char b \<noteq> (47::int)"
  shows "comment_chars (b # bs) = comment_chars bs"
proof -
  obtain line rest where "lines_of bs = line # rest"
    using lines_of_not_Nil [of bs] by (cases "lines_of bs") auto
  with assms show ?thesis
    by (simp add: comment_chars_def lines_of_Cons comment_part_skip)
qed

lemma comment_chars_slash:
  assumes "of_char b \<noteq> (47::int)"
  shows "comment_chars (s # b # bs) = comment_chars bs"
proof -
  obtain line rest where "lines_of bs = line # rest"
    using lines_of_not_Nil [of bs] by (cases "lines_of bs") auto
  with assms show ?thesis
    by (simp add: comment_chars_def lines_of_Cons comment_part_skip)
qed

lemma comment_chars_marker:
  assumes "of_char b = (47::int)" and "of_char b' = (47::int)"
  shows "comment_chars (b # b' # bs) = 2 + length (hd (lines_of bs)) +
       (\<Sum>line\<leftarrow>tl (lines_of bs). length (comment_part line))"
proof -
  obtain line rest where "lines_of bs = line # rest"
    using lines_of_not_Nil [of bs] by (cases "lines_of bs") auto
  with assms show ?thesis
    by (simp add: comment_chars_def lines_of_Cons)
qed

lemma ec_skip_comment:
  "ec_skip bytes excluded = (c, file2, excluded') \<Longrightarrow>
     c \<noteq> 47 \<and> length file2 \<le> length bytes \<and>
     excluded' = excluded + of_nat (length (hd (lines_of bytes))) \<and>
     comment_chars file2 = (\<Sum>line\<leftarrow>tl (lines_of bytes). length (comment_part line))"
proof (induction bytes arbitrary: excluded)
  case Nil
  then show ?case
    by (auto simp: ec_skip_Nil EOF_def lines_of_Nil comment_chars_Nil)
next
  case (Cons b bs)
  show ?case
  proof (cases "of_char b = (10::int)")
    case True
    with Cons.prems show ?thesis
      by (auto simp: ec_skip_Cons lines_of_Cons comment_chars_def)
  next
    case False
    with Cons.prems Cons.IH [of "excluded + 1"] show ?thesis
      by (simp add: ec_skip_Cons lines_of_Cons)
  qed
qed

lemma ec_chars_loop_from:
  "ec_chars_loop bytes c2 excluded =
     excluded + of_nat (comment_chars ((if c2 = 47 then [CHR ''/''] else []) @ bytes))"
proof (induction bytes arbitrary: c2 excluded rule: length_induct)
  case (1 bytes)
  show ?case
  proof (cases bytes)
    case Nil
    then show ?thesis
      by (simp add: ec_chars_loop_Nil comment_chars_Nil comment_chars_single)
  next
    case (Cons b bs)
    show ?thesis
    proof (cases "of_char b = (47::int) \<and> c2 = 47")
      case True
      obtain c file2 excluded' where r: "ec_skip bs (excluded + 2) = (c, file2, excluded')"
        by (metis prod_cases3)
      note k = ec_skip_comment [OF r]
      from k have "length file2 < length bytes"
        using Cons by simp
      with 1 have "ec_chars_loop file2 c excluded' =
          excluded' + of_nat (comment_chars ((if c = 47 then [CHR ''/''] else []) @ file2))"
        by blast
      with k True Cons r show ?thesis
        by (simp add: ec_chars_loop_Cons comment_chars_marker)
    next
      case False
      have "length bs < length bytes"
        using Cons by simp
      with 1 have step: "ec_chars_loop bs (of_char b) excluded =
          excluded + of_nat (comment_chars ((if of_char b = (47::int) then [CHR ''/''] else []) @ bs))"
        by blast
      have "comment_chars ((if c2 = 47 then [CHR ''/''] else []) @ b # bs) =
          comment_chars ((if of_char b = (47::int) then [CHR ''/''] else []) @ bs)"
      proof (cases "of_char b = (47::int)")
        case True
        with False have "c2 \<noteq> 47" by simp
        moreover from True have "b = CHR ''/''"
          using of_char_eq_iff [of b "CHR ''/''", where ?'a = int] by simp
        ultimately show ?thesis
          using True by simp
      next
        case False
        then show ?thesis
          by (simp add: comment_chars_slash comment_chars_skip)
      qed
      moreover have "ec_chars_loop bytes c2 excluded = ec_chars_loop bs (of_char b) excluded"
        using False Cons by (auto simp: ec_chars_loop_Cons)
      ultimately show ?thesis
        using Cons step by simp
    qed
  qed
qed

text \<open>
  C3 (amended). The character-exclusion pass adds to \<^verbatim>\<open>CHARS_EXCLUDED\<close>, for every
  line of the file that holds two consecutive \<^verbatim>\<open>/\<close> bytes, the number of bytes from
  the first such pair of the line to the end of the line: 2 for the marker and 1 for
  each byte behind it up to, and without, the newline or the end of the stream. A
  further \<^verbatim>\<open>//\<close> inside the comment adds nothing. This is stated for the runs in
  which the unassigned \<^verbatim>\<open>c2\<close> does not hold \<^verbatim>\<open>/\<close> while the first byte of the file is
  \<^verbatim>\<open>/\<close>. The counter is a 32-bit \<^verbatim>\<open>int\<close>.
\<close>

theorem ec_chars_loop_comment_chars:
  assumes "c2 \<noteq> 47 \<or> (case bytes of [] \<Rightarrow> True | b # bs \<Rightarrow> of_char b \<noteq> (47::int))"
  shows "ec_chars_loop bytes c2 excluded = excluded + of_nat (comment_chars bytes) \<and>
         (comment_chars bytes < 2 ^ 31 \<longrightarrow>
            sint (ec_chars_loop bytes c2 0) = int (comment_chars bytes))"
proof -
  have "comment_chars ((if c2 = 47 then [CHR ''/''] else []) @ bytes) = comment_chars bytes"
  proof (cases "c2 = 47")
    case True
    with assms show ?thesis
      by (cases bytes)
        (simp_all add: comment_chars_Nil comment_chars_single comment_chars_slash comment_chars_skip)
  next
    case False
    then show ?thesis by simp
  qed
  then have "\<And>x. ec_chars_loop bytes c2 x = x + of_nat (comment_chars bytes)"
    by (simp add: ec_chars_loop_from)
  then show ?thesis
    by (simp add: sint_of_nat_32)
qed


theorem ec_chars_loop_comment_chars_witness:
  "(case ''foo // bar baz'' @ [CHR 0x0A] @ ''x//y'' of [] \<Rightarrow> True | b # bs \<Rightarrow> of_char b \<noteq> (47::int)) \<and>
   ec_chars_loop (''foo // bar baz'' @ [CHR 0x0A] @ ''x//y'') 47 0 = 13 \<and>
   comment_chars (''foo // bar baz'' @ [CHR 0x0A] @ ''x//y'') = 13"
proof -
  have h: "47 \<noteq> (47::int) \<or> (case ''foo // bar baz'' @ [CHR 0x0A] @ ''x//y'' of [] \<Rightarrow> True | b # bs \<Rightarrow> of_char b \<noteq> (47::int))"
    by simp
  have c: "comment_chars (''foo // bar baz'' @ [CHR 0x0A] @ ''x//y'') = 13"
    by (simp add: comment_chars_def lines_of.simps)
  from ec_chars_loop_comment_chars [OF h, of 0] h c show ?thesis
    by simp
qed

text \<open>
  C3 as worded fails on a comment that holds a second marker: the file
  \<^verbatim>\<open>// a // b\<close> with its newline has two positions with \<^verbatim>\<open>//\<close>, the sum over both
  is 13, more than the ten bytes of the file, and the pass excludes 9.
\<close>

theorem marker_sum_counterexample:
  "ec_chars_loop (''// a // b'' @ [CHR 0x0A]) 0 0 = 9 \<and>
   marker_sum (''// a // b'' @ [CHR 0x0A]) = 13 \<and>
   ec_chars_loop (''// a // b'' @ [CHR 0x0A]) 0 0 \<noteq> of_nat (marker_sum (''// a // b'' @ [CHR 0x0A]))"
proof -
  have a: "ec_chars_loop (''// a // b'' @ [CHR 0x0A]) 0 0 = 9"
    by (simp add: ec_chars_loop_Cons ec_chars_loop_Nil ec_skip_Cons ec_skip_Nil)
  have b: "marker_sum (''// a // b'' @ [CHR 0x0A]) = 13"
    by (simp add: marker_sum_def marker_at_def upt_conv_Cons)
  from a b show ?thesis
    by simp
qed

lemmas scan_eval = wc_loop_Cons wc_loop_Nil wc_word_Cons wc_word_Nil wspace_def EOF_def

lemmas chars_pass_eval = ec_chars_loop_Cons ec_chars_loop_Nil ec_skip_Cons ec_skip_Nil

lemmas words_pass_eval = ec_words_loop_Cons ec_words_loop_Nil ec_token_stop ec_token_step
  ec_token_marker ec_comment_Cons ec_comment_Nil fgetc_def wspace_def EOF_def

section \<open>\<^verbatim>\<open>main\<close>: what one file and one flag argument do\<close>

lemma main_loop_file:
  "\<not> starts_dash arg \<Longrightarrow>
     main_loop e (arg # args) ellide_comments numfiles s =
       (case count_file e ellide_comments arg s of
          Inl halt \<Rightarrow> Inl halt
        | Inr s' \<Rightarrow> main_loop e args ellide_comments (Suc numfiles) (s'\<lparr>out := out s' @ [File_name arg]\<rparr>))"
  by (simp add: count_file_def split: sum.splits)

lemma main_loop_flag:
  "starts_dash arg \<Longrightarrow>
     main_loop e (arg # args) ellide_comments numfiles s =
       (case flag_chars (tl arg) (ellide_comments, s) of
          (ellide_comments', s') \<Rightarrow> main_loop e args ellide_comments' numfiles s')"
  by simp

lemma wc_unfold:
  "wc e filename s =
     (case (if fopen_fails e (length (opens s)) then None else files s filename) of
        None \<Rightarrow> Inl (Exit EXIT_FAILURE (s\<lparr>opens := opens s @ [(filename, False)]\<rparr>))
      | Some bytes \<Rightarrow>
          (case wc_loop (libc_iswspace e) bytes (0, 0, 0) of
             (words, lines, chars) \<Rightarrow>
               Inr (s\<lparr>opens := opens s @ [(filename, True)],
                      out := out s @
                        counts_line (L s, W s, C s)
                          (lines, words - WORDS_EXCLUDED s, chars - CHARS_EXCLUDED s),
                      TOTAL_WORDS := TOTAL_WORDS s + (words - WORDS_EXCLUDED s),
                      TOTAL_LINES := TOTAL_LINES s + lines,
                      TOTAL_CHARS := TOTAL_CHARS s + (chars - CHARS_EXCLUDED s),
                      WORDS_EXCLUDED := 0, CHARS_EXCLUDED := 0\<rparr>)))"
  by (simp add: wc_def fopen_def counts_line_def Let_def split: option.splits prod.splits)

lemma exclude_comments_unfold:
  "exclude_comments e filename s =
     (case (if fopen_fails e (length (opens s)) then None else files s filename) of
        None \<Rightarrow> Inl (Exit EXIT_FAILURE (s\<lparr>opens := opens s @ [(filename, False)]\<rparr>))
      | Some bytes \<Rightarrow>
          if fopen_fails e (Suc (length (opens s)))
          then Inl (Exit EXIT_FAILURE
                 (s\<lparr>opens := opens s @ [(filename, True), (filename, False)],
                    CHARS_EXCLUDED :=
                      ec_chars_loop bytes (indeterminate e (length (opens s)) 0) (CHARS_EXCLUDED s)\<rparr>))
          else Inr (s\<lparr>opens := opens s @ [(filename, True), (filename, True)],
                      CHARS_EXCLUDED :=
                        ec_chars_loop bytes (indeterminate e (length (opens s)) 0) (CHARS_EXCLUDED s),
                      WORDS_EXCLUDED :=
                        ec_words_loop (indeterminate e (Suc (length (opens s)))) 0 bytes
                          (WORDS_EXCLUDED s)\<rparr>))"
  by (simp add: exclude_comments_def fopen_def Let_def split: option.splits prod.splits)

lemma count_file_Inr:
  assumes "count_file e ellide_comments filename s = Inr s'"
  shows "W s' = W s \<and> L s' = L s \<and> C s' = C s \<and> files s' = files s \<and>
         CHARS_EXCLUDED s' = 0 \<and> WORDS_EXCLUDED s' = 0 \<and>
         (\<exists>new. opens s' = opens s @ new \<and> list_all snd new) \<and>
         (\<exists>new. out s' = out s @ new \<and> \<not> list_ex is_total new)"
  using assms
  by (auto simp: count_file_def wc_unfold exclude_comments_unfold counts_line_def
      split: if_splits option.splits prod.splits sum.splits)

lemma count_file_Inl:
  assumes "count_file e ellide_comments filename s = Inl halt"
  shows "\<exists>s'. halt = Exit EXIT_FAILURE s' \<and>
           W s' = W s \<and> L s' = L s \<and> C s' = C s \<and> files s' = files s \<and>
           out s' = out s \<and> TOTAL_LINES s' = TOTAL_LINES s \<and>
           TOTAL_WORDS s' = TOTAL_WORDS s \<and> TOTAL_CHARS s' = TOTAL_CHARS s \<and>
           (\<exists>new. opens s' = opens s @ new @ [(filename, False)] \<and> list_all snd new)"
  using assms
  by (auto simp: count_file_def wc_unfold exclude_comments_unfold
      split: if_splits option.splits prod.splits sum.splits)

lemma flag_chars_effect:
  "flag_chars cs (ellide_comments, s) =
     (ellide_comments \<or> CHR ''C'' \<in> set cs,
      s\<lparr>W := W s \<or> CHR ''w'' \<in> set cs,
        L := L s \<or> CHR ''l'' \<in> set cs,
        C := C s \<or> CHR ''c'' \<in> set cs\<rparr>)"
  by (induction cs arbitrary: ellide_comments s) auto

lemma main_unfold:
  "main e input fs args =
     (case main_loop e args False 0 (start fs args) of
        Inl halt \<Rightarrow> halt
      | Inr (ellide_comments, numfiles, s) \<Rightarrow>
          if numfiles = 0 then
            (if fopen_fails e (length (opens s))
             then Undefined (s\<lparr>opens := opens s @ [(''temp.txt'', False)]\<rparr>)
             else
               (case count_file e ellide_comments ''temp.txt''
                       (s\<lparr>opens := opens s @ [(''temp.txt'', True)],
                          files := (files s)(''temp.txt'' \<mapsto> read_stdin input [])\<rparr>) of
                  Inl halt \<Rightarrow> halt
                | Inr s' \<Rightarrow>
                    Exit 0 (s'\<lparr>out := out s' @ [Newline],
                              files := (files s')(''temp.txt'' := None)\<rparr>)))
          else
            Exit 0 (if 1 < numfiles
                    then s\<lparr>out := out s @
                           [Total (sint (TOTAL_LINES s)) (sint (TOTAL_WORDS s))
                              (sint (TOTAL_CHARS s))]\<rparr>
                    else s))"
proof (cases "main_loop e args False 0 (start fs args)")
  case (Inl halt)
  then show ?thesis
    by (simp add: main_def start_def shows_all_by_default_def Let_def)
next
  case (Inr r)
  obtain ellide_comments numfiles s where r: "r = (ellide_comments, numfiles, s)"
    by (cases r) auto
  have m: "main e input fs args =
    (let s = (if numfiles > 1
              then s\<lparr>out := out s @
                     [Total (sint (TOTAL_LINES s)) (sint (TOTAL_WORDS s)) (sint (TOTAL_CHARS s))]\<rparr>
              else s)
     in if numfiles = 0 then
          (let filename = ''temp.txt'';
               (fl, s) = fopen_wb e filename s;
               acc = read_stdin input []
           in if \<not> fl then Undefined s
              else
                (let s = s\<lparr>files := (files s)(filename \<mapsto> acc)\<rparr> in
                 case (if ellide_comments then exclude_comments e filename s else Inr s) of
                   Inl halt \<Rightarrow> halt
                 | Inr s \<Rightarrow>
                     (case wc e filename s of
                        Inl halt \<Rightarrow> halt
                      | Inr s \<Rightarrow>
                          (let s = s\<lparr>out := out s @ [Newline]\<rparr>;
                               s = s\<lparr>files := (files s)(filename := None)\<rparr>
                           in Exit 0 s))))
        else Exit 0 s)"
    using Inr r by (simp add: main_def start_def shows_all_by_default_def)
  show ?thesis
  proof (cases "numfiles = 0")
    case False
    then show ?thesis
      using Inr r by (simp add: m)
  next
    case True
    show ?thesis
    proof (cases "fopen_fails e (length (opens s))")
      case fails: True
      then show ?thesis
        using Inr r True by (simp add: m fopen_wb_def)
    next
      case ok: False
      then show ?thesis
        using Inr r True
        by (simp add: m fopen_wb_def count_file_def Let_def split: sum.splits)
    qed
  qed
qed

text \<open>
  What one file does to the globals when the exclusion counters are zero before it:
  its line shows its own adjusted counts, and these are added to the totals.
\<close>

lemma count_file_adjusted:
  assumes "CHARS_EXCLUDED s = 0" and "WORDS_EXCLUDED s = 0"
  shows "case count_file e ellide_comments filename s of
           Inl halt \<Rightarrow>
             (files s filename = None \<or> \<not> opens_ok e (length (opens s)) ellide_comments)
         | Inr s' \<Rightarrow>
             (\<exists>bytes. files s filename = Some bytes \<and>
                opens_ok e (length (opens s)) ellide_comments \<and>
                out s' = out s @ counts_line (L s, W s, C s)
                                   (adjusted e (length (opens s)) ellide_comments bytes) \<and>
                TOTAL_LINES s' =
                  TOTAL_LINES s + fst (adjusted e (length (opens s)) ellide_comments bytes) \<and>
                TOTAL_WORDS s' =
                  TOTAL_WORDS s + fst (snd (adjusted e (length (opens s)) ellide_comments bytes)) \<and>
                TOTAL_CHARS s' =
                  TOTAL_CHARS s + snd (snd (adjusted e (length (opens s)) ellide_comments bytes)) \<and>
                length (opens s') = length (opens s) + (if ellide_comments then 3 else 1))"
  using assms
  by (auto simp: count_file_def wc_unfold exclude_comments_unfold adjusted_def opens_ok_def
      split: if_splits option.splits prod.splits sum.splits)

lemma file_lines_Nil:
  "file_lines [] = []"
  by (simp add: file_lines_def)

lemma file_lines_Cons:
  "file_lines ((shown, counts, name) # rep) =
     counts_line shown counts @ File_name name # file_lines rep"
  by (simp add: file_lines_def)

lemma file_args_flag:
  "starts_dash arg \<Longrightarrow> file_args (arg # args) = file_args args"
  by (simp add: file_args_def)

lemma file_args_file:
  "\<not> starts_dash arg \<Longrightarrow> file_args (arg # args) = arg # file_args args"
  by (simp add: file_args_def)

text \<open>
  The loop of \<^verbatim>\<open>main\<close>, entered with both exclusion counters zero, prints the per-file
  lines of the report and adds the three columns of the report to the totals; it
  leaves the exclusion counters zero.
\<close>

lemma main_loop_report:
  assumes "CHARS_EXCLUDED s = 0" and "WORDS_EXCLUDED s = 0"
  shows "case main_loop e args ellide_comments numfiles s of
           Inl halt \<Rightarrow>
             (\<exists>s'. halt = Exit EXIT_FAILURE s' \<and>
                out s' = out s @ file_lines (report e (files s) (L s, W s, C s) ellide_comments
                                              (length (opens s)) args))
         | Inr (ellide_comments', numfiles', s') \<Rightarrow>
             out s' = out s @ file_lines (report e (files s) (L s, W s, C s) ellide_comments
                                           (length (opens s)) args) \<and>
             length (report e (files s) (L s, W s, C s) ellide_comments (length (opens s)) args) =
               length (file_args args) \<and>
             numfiles' = numfiles + length (file_args args) \<and>
             TOTAL_LINES s' = TOTAL_LINES s + sum_list (report_lines
               (report e (files s) (L s, W s, C s) ellide_comments (length (opens s)) args)) \<and>
             TOTAL_WORDS s' = TOTAL_WORDS s + sum_list (report_words
               (report e (files s) (L s, W s, C s) ellide_comments (length (opens s)) args)) \<and>
             TOTAL_CHARS s' = TOTAL_CHARS s + sum_list (report_bytes
               (report e (files s) (L s, W s, C s) ellide_comments (length (opens s)) args)) \<and>
             CHARS_EXCLUDED s' = 0 \<and> WORDS_EXCLUDED s' = 0"
  using assms
proof (induction args arbitrary: ellide_comments numfiles s)
  case Nil
  then show ?case
    by (simp add: file_lines_Nil file_args_def report_lines_def report_words_def report_bytes_def)
next
  case (Cons arg args)
  show ?case
  proof (cases "starts_dash arg")
    case True
    let ?s = "s\<lparr>W := W s \<or> CHR ''w'' \<in> set (tl arg),
        L := L s \<or> CHR ''l'' \<in> set (tl arg),
        C := C s \<or> CHR ''c'' \<in> set (tl arg)\<rparr>"
    from Cons.prems have "CHARS_EXCLUDED ?s = 0" "WORDS_EXCLUDED ?s = 0"
      by simp_all
    from Cons.IH [OF this, where ellide_comments = "ellide_comments \<or> CHR ''C'' \<in> set (tl arg)"
        and numfiles = numfiles]
    show ?thesis
      using True
      by (auto simp: main_loop_flag flag_chars_effect file_args_flag simp del: main_loop.simps
          split: sum.splits)
  next
    case False
    show ?thesis
    proof (cases "count_file e ellide_comments arg s")
      case (Inl halt)
      from count_file_adjusted [OF Cons.prems, where e = e and ellide_comments = ellide_comments and filename = arg] Inl
      have "report e (files s) (L s, W s, C s) ellide_comments (length (opens s)) (arg # args) = []"
        using False by (cases ellide_comments) (auto split: option.splits)
      moreover from count_file_Inl [OF Inl] obtain s' where
        "halt = Exit EXIT_FAILURE s'" "out s' = out s"
        by blast
      ultimately show ?thesis
        using False Inl by (simp add: main_loop_file file_lines_Nil del: main_loop.simps report.simps)
    next
      case (Inr s')
      from count_file_adjusted [OF Cons.prems, where e = e and ellide_comments = ellide_comments and filename = arg] Inr obtain bytes where
        b: "files s arg = Some bytes" "opens_ok e (length (opens s)) ellide_comments"
          "out s' = out s @ counts_line (L s, W s, C s)
                              (adjusted e (length (opens s)) ellide_comments bytes)"
          "TOTAL_LINES s' =
             TOTAL_LINES s + fst (adjusted e (length (opens s)) ellide_comments bytes)"
          "TOTAL_WORDS s' =
             TOTAL_WORDS s + fst (snd (adjusted e (length (opens s)) ellide_comments bytes))"
          "TOTAL_CHARS s' =
             TOTAL_CHARS s + snd (snd (adjusted e (length (opens s)) ellide_comments bytes))"
          "length (opens s') = length (opens s) + (if ellide_comments then 3 else 1)"
        by auto
      from count_file_Inr [OF Inr] have
        k: "W s' = W s" "L s' = L s" "C s' = C s" "files s' = files s"
          "CHARS_EXCLUDED s' = 0" "WORDS_EXCLUDED s' = 0"
        by simp_all
      let ?s = "s'\<lparr>out := out s' @ [File_name arg]\<rparr>"
      let ?rest = "report e (files s) (L s, W s, C s) ellide_comments
                     (length (opens s) + (if ellide_comments then 3 else 1)) args"
      have rep: "report e (files s) (L s, W s, C s) ellide_comments (length (opens s)) (arg # args) =
          ((L s, W s, C s), adjusted e (length (opens s)) ellide_comments bytes, arg) # ?rest"
        using False b(1,2) by simp
      have eqs: "files ?s = files s" "L ?s = L s" "W ?s = W s" "C ?s = C s"
        "length (opens ?s) = length (opens s) + (if ellide_comments then 3 else 1)"
        using k b(7) by simp_all
      from k have "CHARS_EXCLUDED ?s = 0" "WORDS_EXCLUDED ?s = 0"
        by simp_all
      note ih = Cons.IH [OF this, where ellide_comments = ellide_comments
          and numfiles = "Suc numfiles", unfolded eqs]
      show ?thesis
        unfolding rep main_loop_file [OF False] Inr
        using ih b(3,4,5,6) False
        by (auto simp: file_lines_Cons file_args_file report_lines_def report_words_def
            report_bytes_def split: sum.splits)
    qed
  qed
qed

lemma flag_given_flag:
  "starts_dash arg \<Longrightarrow> flag_given ch (arg # args) \<longleftrightarrow> ch \<in> set (tl arg) \<or> flag_given ch args"
  by (auto simp: flag_given_def)

lemma flag_given_file:
  "\<not> starts_dash arg \<Longrightarrow> flag_given ch (arg # args) \<longleftrightarrow> flag_given ch args"
  by (auto simp: flag_given_def)



lemma main_loop_flags:
  "main_loop e args ellide_comments numfiles s = Inr (ellide_comments', numfiles', s') \<Longrightarrow>
     L s' = (L s \<or> flag_given CHR ''l'' args) \<and>
     W s' = (W s \<or> flag_given CHR ''w'' args) \<and>
     C s' = (C s \<or> flag_given CHR ''c'' args)"
proof (induction args arbitrary: ellide_comments numfiles s)
  case Nil
  then show ?case
    by (simp add: flag_given_def)
next
  case (Cons arg args)
  show ?case
  proof (cases "starts_dash arg")
    case True
    let ?s = "s\<lparr>W := W s \<or> CHR ''w'' \<in> set (tl arg), L := L s \<or> CHR ''l'' \<in> set (tl arg),
                 C := C s \<or> CHR ''c'' \<in> set (tl arg)\<rparr>"
    let ?ell = "ellide_comments \<or> CHR ''C'' \<in> set (tl arg)"
    from Cons.prems True have "main_loop e args ?ell numfiles ?s = Inr (ellide_comments', numfiles', s')"
      by (simp add: flag_chars_effect)
    from Cons.IH [OF this] True show ?thesis
      by (simp add: flag_given_flag disj_assoc)
  next
    case False
    show ?thesis
    proof (cases "count_file e ellide_comments arg s")
      case (Inl halt)
      with Cons.prems False show ?thesis
        by (simp add: main_loop_file del: main_loop.simps)
    next
      case (Inr s1)
      let ?s = "s1\<lparr>out := out s1 @ [File_name arg]\<rparr>"
      from Cons.prems False Inr have
        "main_loop e args ellide_comments (Suc numfiles) ?s = Inr (ellide_comments', numfiles', s')"
        by (simp add: main_loop_file del: main_loop.simps)
      from Cons.IH [OF this] count_file_Inr [OF Inr] False show ?thesis
        by (simp add: flag_given_file)
    qed
  qed
qed

section \<open>Exit status\<close>

lemma failed_at_last_open_append:
  "list_all snd old \<Longrightarrow> list_all snd new \<Longrightarrow> opens s = old @ new @ [(name, False)] \<Longrightarrow>
     failed_at_last_open s \<and> \<not> list_all snd (opens s)"
  by (simp add: failed_at_last_open_def butlast_append)

lemma main_loop_opens:
  assumes "list_all snd (opens s)" and "\<not> list_ex is_total (out s)"
  shows "case main_loop e args ellide_comments numfiles s of
           Inl halt \<Rightarrow>
             (\<exists>s'. halt = Exit EXIT_FAILURE s' \<and> failed_at_last_open s' \<and>
                    \<not> list_all snd (opens s') \<and> \<not> list_ex is_total (out s'))
         | Inr (ellide_comments', numfiles', s') \<Rightarrow>
             list_all snd (opens s') \<and> \<not> list_ex is_total (out s') \<and> numfiles \<le> numfiles' \<and>
             (numfiles' = numfiles \<longrightarrow> opens s' = opens s \<and> out s' = out s)"
  using assms
proof (induction args arbitrary: ellide_comments numfiles s)
  case Nil
  then show ?case by simp
next
  case (Cons arg args)
  show ?case
  proof (cases "starts_dash arg")
    case True
    let ?s = "s\<lparr>W := W s \<or> CHR ''w'' \<in> set (tl arg),
        L := L s \<or> CHR ''l'' \<in> set (tl arg),
        C := C s \<or> CHR ''c'' \<in> set (tl arg)\<rparr>"
    from Cons.prems have "list_all snd (opens ?s)" "\<not> list_ex is_total (out ?s)"
      by simp_all
    from Cons.IH [OF this, where ellide_comments = "ellide_comments \<or> CHR ''C'' \<in> set (tl arg)"
        and numfiles = numfiles]
    show ?thesis
      using True
      by (auto simp: main_loop_flag flag_chars_effect simp del: main_loop.simps split: sum.splits)
  next
    case False
    show ?thesis
    proof (cases "count_file e ellide_comments arg s")
      case (Inl halt)
      from count_file_Inl [OF Inl] obtain s' new where
        h: "halt = Exit EXIT_FAILURE s'" "out s' = out s"
          "opens s' = opens s @ new @ [(arg, False)]" "list_all snd new"
        by blast
      from failed_at_last_open_append [OF Cons.prems(1) h(4) h(3)] h Cons.prems(2) False Inl
      show ?thesis
        by (simp add: main_loop_file del: main_loop.simps)
    next
      case (Inr s')
      from count_file_Inr [OF Inr] obtain new printed where
        h: "opens s' = opens s @ new" "list_all snd new" "out s' = out s @ printed"
          "\<not> list_ex is_total printed"
        by blast
      let ?s = "s'\<lparr>out := out s' @ [File_name arg]\<rparr>"
      from h Cons.prems have "list_all snd (opens ?s)" "\<not> list_ex is_total (out ?s)"
        by simp_all
      from Cons.IH [OF this, where ellide_comments = ellide_comments and numfiles = "Suc numfiles"]
      show ?thesis
        using False Inr by (auto simp: main_loop_file simp del: main_loop.simps split: sum.splits)
    qed
  qed
qed

text \<open>
  Every run that ends by \<^verbatim>\<open>exit\<close> ends in one of two ways. Either every \<^verbatim>\<open>fopen\<close> of
  the run succeeded, and the status is 0. Or the status is \<^verbatim>\<open>EXIT_FAILURE\<close>, which is
  not 0; then the call of \<^verbatim>\<open>fopen\<close> that failed, in \<^verbatim>\<open>wc\<close> or in either pass of
  \<^verbatim>\<open>exclude_comments\<close>, is the last thing the process did (every earlier call
  succeeded and none follows), and no totals line has been printed. A run that does
  not end by \<^verbatim>\<open>exit\<close> has made one call of \<^verbatim>\<open>fopen\<close>, for the staging file
  \<^verbatim>\<open>temp.txt\<close>, and that call failed.
\<close>

lemma ends_by_exit:
  "case main e input fs args of
     Exit status s \<Rightarrow>
       (if list_all snd (opens s) then status = 0
        else status = EXIT_FAILURE \<and> status \<noteq> 0 \<and> failed_at_last_open s \<and>
             \<not> list_ex is_total (out s))
   | Undefined s \<Rightarrow> opens s = [(''temp.txt'', False)] \<and> out s = []"
proof -
  define s0 where "s0 = (if (case args of [] \<Rightarrow> True | arg1 # _ \<Rightarrow> \<not> starts_dash arg1 \<or> arg1 = ''-C'')
               then (initial fs)\<lparr>W := True, L := True, C := True\<rparr> else initial fs)"
  have init: "list_all snd (opens s0)" "\<not> list_ex is_total (out s0)" "opens s0 = []" "out s0 = []"
    by (simp_all add: s0_def initial_def)
  have nz: "EXIT_FAILURE \<noteq> 0"
    by (simp add: EXIT_FAILURE_def)
  show ?thesis
  proof (cases "main_loop e args False 0 s0")
    case (Inl halt)
    with main_loop_opens [OF init(1,2), where e = e and args = args and ellide_comments = False
        and numfiles = 0] nz show ?thesis
      by (auto simp: main_def Let_def s0_def [symmetric])
  next
    case (Inr r)
    obtain ellide_comments numfiles s where r: "r = (ellide_comments, numfiles, s)"
      by (cases r) auto
    with main_loop_opens [OF init(1,2), where e = e and args = args and ellide_comments = False
        and numfiles = 0] Inr have
      l: "list_all snd (opens s)" "\<not> list_ex is_total (out s)"
        "numfiles = 0 \<longrightarrow> opens s = [] \<and> out s = []"
      using init by auto
    show ?thesis
    proof (cases "numfiles = 0")
      case False
      with Inr r l show ?thesis
        by (simp add: main_def Let_def s0_def [symmetric])
    next
      case True
      with l have e0: "opens s = []" "out s = []"
        by simp_all
      show ?thesis
      proof (cases "fopen_fails e 0")
        case fails: True
        with Inr r True e0 show ?thesis
          by (simp add: main_def Let_def s0_def [symmetric] fopen_wb_def)
      next
        case ok: False
        define s1 where "s1 = s\<lparr>opens := [(''temp.txt'', True)],
          files := (files s)(''temp.txt'' \<mapsto> read_stdin input [])\<rparr>"
        have m: "main e input fs args =
          (case count_file e ellide_comments ''temp.txt'' s1 of
             Inl halt \<Rightarrow> halt
           | Inr s' \<Rightarrow> Exit 0 (s'\<lparr>out := out s' @ [Newline], files := (files s')(''temp.txt'' := None)\<rparr>))"
          using Inr r True e0 ok
          by (simp add: main_def Let_def s0_def [symmetric] fopen_wb_def count_file_def s1_def
              split: sum.splits)
        have s1: "list_all snd (opens s1)" "out s1 = []"
          using e0 by (simp_all add: s1_def)
        show ?thesis
        proof (cases "count_file e ellide_comments ''temp.txt'' s1")
          case (Inl halt)
          from count_file_Inl [OF Inl] obtain s' new where
            h: "halt = Exit EXIT_FAILURE s'" "out s' = out s1"
              "opens s' = opens s1 @ new @ [(''temp.txt'', False)]" "list_all snd new"
            by blast
          from failed_at_last_open_append [OF s1(1) h(4) h(3)] h s1 nz Inl show ?thesis
            by (simp add: m)
        next
          case (Inr s')
          from count_file_Inr [OF Inr] obtain new where
            "opens s' = opens s1 @ new" "list_all snd new"
            by blast
          with s1 Inr show ?thesis
            by (simp add: m)
        qed
      qed
    qed
  qed
qed

lemma ends_by_exit_example:
  "main c_locale [] (\<lambda>name. if name = ''a'' then Some (''x y'' @ [CHR 0x0A]) else None)
     [''-C'', ''a'', ''b'', ''c''] =
     Exit EXIT_FAILURE
       \<lparr>W = True, L = True, C = True, CHARS_EXCLUDED = 0, WORDS_EXCLUDED = 0,
        TOTAL_WORDS = 2, TOTAL_LINES = 1, TOTAL_CHARS = 4,
        files = (\<lambda>name. if name = ''a'' then Some (''x y'' @ [CHR 0x0A]) else None),
        opens = [(''a'', True), (''a'', True), (''a'', True), (''b'', False)],
        out = [Count Line_count 1, Count Word_count 2, Count Byte_count 4, File_name ''a'']\<rparr> \<and>
   \<not> list_all snd [(''a'', True), (''a'', True), (''a'', True), (''b'', False)] \<and>
   EXIT_FAILURE \<noteq> 0 \<and>
   failed_at_last_open (final (main c_locale [] (\<lambda>name. if name = ''a'' then Some (''x y'' @ [CHR 0x0A]) else None)
     [''-C'', ''a'', ''b'', ''c''])) \<and>
   \<not> list_ex is_total [Count Line_count 1, Count Word_count 2, Count Byte_count 4, File_name ''a'']"
proof -
  let ?fs = "\<lambda>name. if name = ''a'' then Some (''x y'' @ [CHR 0x0A]) else None"
  have run: "main c_locale [] ?fs [''-C'', ''a'', ''b'', ''c''] =
     Exit EXIT_FAILURE
       \<lparr>W = True, L = True, C = True, CHARS_EXCLUDED = 0, WORDS_EXCLUDED = 0,
        TOTAL_WORDS = 2, TOTAL_LINES = 1, TOTAL_CHARS = 4,
        files = ?fs,
        opens = [(''a'', True), (''a'', True), (''a'', True), (''b'', False)],
        out = [Count Line_count 1, Count Word_count 2, Count Byte_count 4, File_name ''a'']\<rparr>"
    by (simp add: main_def initial_def c_locale_def exclude_comments_def wc_def fopen_def Let_def
        scan_eval chars_pass_eval words_pass_eval)
  from ends_by_exit [of c_locale "[]" ?fs "[''-C'', ''a'', ''b'', ''c'']"] run
  show ?thesis
    by simp
qed

lemma main_loop_flags_only:
  "file_args args = [] \<Longrightarrow>
     main_loop e args ellide_comments numfiles s =
       Inr (ellide_comments \<or> flag_given CHR ''C'' args, numfiles,
            s\<lparr>W := W s \<or> flag_given CHR ''w'' args,
              L := L s \<or> flag_given CHR ''l'' args,
              C := C s \<or> flag_given CHR ''c'' args\<rparr>)"
proof (induction args arbitrary: ellide_comments s)
  case Nil
  then show ?case
    by (simp add: flag_given_def)
next
  case (Cons arg args)
  then have d: "starts_dash arg" and r: "file_args args = []"
    by (auto simp: file_args_def split: if_splits)
  show ?case
    by (simp add: main_loop_flag [OF d] flag_chars_effect Cons.IH [OF r] flag_given_flag [OF d]
        disj_assoc del: main_loop.simps)
qed

text \<open>
  C9. The claim is that the process ends with a status other than 0 the moment any
  file cannot be opened. \<^verbatim>\<open>wc\<close> and both passes of \<^verbatim>\<open>exclude_comments\<close> test the stream
  that \<^verbatim>\<open>fopen\<close> returns and call \<^verbatim>\<open>exit(EXIT_FAILURE)\<close>. \<^verbatim>\<open>main\<close> does not test the
  stream of its staging file: in every run without a file argument whose call of
  \<^verbatim>\<open>fopen\<close> for \<^verbatim>\<open>temp.txt\<close>, the first call of the run, fails, the process does not
  end by \<^verbatim>\<open>exit\<close> at all, whatever the status; it goes on, reads standard input to its
  end and passes the null stream to \<^verbatim>\<open>fprintf\<close>. Nothing has been printed, and the failed
  call is the only one made.
\<close>

theorem staging_open_failure_not_tested:
  assumes "file_args args = []" and "fopen_fails e 0"
  shows "main e input fs args =
           Undefined ((start fs args)
             \<lparr>W := W (start fs args) \<or> flag_given CHR ''w'' args,
              L := L (start fs args) \<or> flag_given CHR ''l'' args,
              C := C (start fs args) \<or> flag_given CHR ''c'' args,
              opens := [(''temp.txt'', False)]\<rparr>) \<and>
         out (final (main e input fs args)) = [] \<and>
         (\<forall>status s. main e input fs args \<noteq> Exit status s)"
proof -
  have "opens (start fs args) = []" "out (start fs args) = []"
    by (simp_all add: start_def initial_def)
  with assms(2) show ?thesis
    by (simp add: main_unfold main_loop_flags_only [OF assms(1)])
qed

theorem staging_open_failure_not_tested_witness:
  "file_args [''-C''] = [] \<and>
   fopen_fails (c_locale\<lparr>fopen_fails := \<lambda>n. n = 0\<rparr>) 0 \<and>
   main (c_locale\<lparr>fopen_fails := \<lambda>n. n = 0\<rparr>) ''a b'' hello [''-C''] =
     Undefined
       \<lparr>W = True, L = True, C = True, CHARS_EXCLUDED = 0, WORDS_EXCLUDED = 0,
        TOTAL_WORDS = 0, TOTAL_LINES = 0, TOTAL_CHARS = 0, files = hello,
        opens = [(''temp.txt'', False)], out = []\<rparr>"
  using staging_open_failure_not_tested
    [of "[''-C'']" "c_locale\<lparr>fopen_fails := \<lambda>n. n = 0\<rparr>" "''a b''" hello]
  by (simp add: file_args_def flag_given_def start_def shows_all_by_default_def initial_def)

section \<open>Per-file counts and totals\<close>

lemma sint_word_of_int_32:
  "- (2 ^ 31) \<le> x \<Longrightarrow> x < 2 ^ 31 \<Longrightarrow> sint (word_of_int x :: cint) = x"
  by (simp add: signed_of_int signed_take_bit_int_eq_self)

lemma word_of_int_sum_sint:
  "word_of_int (\<Sum>x\<leftarrow>xs. sint x) = sum_list (xs :: cint list)"
  by (induction xs) simp_all

lemma exact_sum_sum_list:
  "exact_sum xs (sint (sum_list xs))"
  unfolding exact_sum_def
  using sint_word_of_int_32 [of "\<Sum>x\<leftarrow>xs. sint x"] by (simp add: word_of_int_sum_sint)

lemma counts_line_no_total:
  "filter (\<lambda>item. \<not> is_total item) (counts_line shown counts) = counts_line shown counts"
  by (cases shown; cases counts) (simp add: counts_line_def)

lemma file_lines_no_total:
  "filter (\<lambda>item. \<not> is_total item) (file_lines rep) = file_lines rep"
  by (induction rep) (auto simp: file_lines_Nil file_lines_Cons counts_line_no_total)

lemma start_globals:
  "CHARS_EXCLUDED (start fs args) = 0" "WORDS_EXCLUDED (start fs args) = 0"
  "TOTAL_LINES (start fs args) = 0" "TOTAL_WORDS (start fs args) = 0"
  "TOTAL_CHARS (start fs args) = 0" "files (start fs args) = fs"
  "opens (start fs args) = []" "out (start fs args) = []"
  "(L (start fs args), W (start fs args), C (start fs args)) = start_shown args"
  by (simp_all add: start_def initial_def start_shown_def)

text \<open>
  A run with a file argument ends by \<^verbatim>\<open>exit\<close>. With status 0 it has printed the
  per-file lines of its report, for every file argument, and behind them, for two or
  more files, the totals line; the totals are the sums of the columns of the report.
  With another status it has printed the per-file lines of its report and nothing
  else.
\<close>

lemma main_files:
  assumes "file_args args \<noteq> []"
  shows "case main e input fs args of
           Exit status s' \<Rightarrow>
             (if status = 0 then
                out s' = file_lines (report e fs (start_shown args) False 0 args) @
                  (if 2 \<le> length (file_args args)
                   then [Total (sint (TOTAL_LINES s')) (sint (TOTAL_WORDS s'))
                           (sint (TOTAL_CHARS s'))]
                   else []) \<and>
                length (report e fs (start_shown args) False 0 args) = length (file_args args) \<and>
                TOTAL_LINES s' = sum_list (report_lines (report e fs (start_shown args) False 0 args)) \<and>
                TOTAL_WORDS s' = sum_list (report_words (report e fs (start_shown args) False 0 args)) \<and>
                TOTAL_CHARS s' = sum_list (report_bytes (report e fs (start_shown args) False 0 args)) \<and>
                CHARS_EXCLUDED s' = 0 \<and> WORDS_EXCLUDED s' = 0
              else out s' = file_lines (report e fs (start_shown args) False 0 args))
         | Undefined s' \<Rightarrow> False"
proof -
  note loop = main_loop_report [OF start_globals(1,2), where e = e and args = args
      and ellide_comments = False and numfiles = 0 and fs1 = fs and args1 = args,
      unfolded start_globals]
  have nz: "EXIT_FAILURE \<noteq> 0"
    by (simp add: EXIT_FAILURE_def)
  show ?thesis
  proof (cases "main_loop e args False 0 (start fs args)")
    case (Inl halt)
    with loop nz show ?thesis
      by (auto simp: main_unfold)
  next
    case (Inr r)
    obtain ellide_comments numfiles s where r: "r = (ellide_comments, numfiles, s)"
      by (cases r) auto
    from loop Inr r have n: "numfiles = length (file_args args)"
      by simp
    with assms have "numfiles \<noteq> 0"
      by simp
    with loop Inr r n show ?thesis
      by (auto simp: main_unfold)
  qed
qed

text \<open>
  A run without a file argument that ends with status 0 has printed one line: the
  counts, as shown, of the bytes staged from standard input, adjusted for that file
  alone. The staging file is opened by the first call of \<^verbatim>\<open>fopen\<close>, so the first pass
  over it makes the second call.
\<close>

lemma main_stdin:
  assumes "file_args args = []" and "main e input fs args = Exit 0 s'"
  shows "out s' = counts_line (L s', W s', C s')
                    (adjusted e 1 (flag_given CHR ''C'' args) (read_stdin input [])) @ [Newline] \<and>
         CHARS_EXCLUDED s' = 0 \<and> WORDS_EXCLUDED s' = 0"
proof -
  let ?s = "(start fs args)
      \<lparr>W := W (start fs args) \<or> flag_given CHR ''w'' args,
       L := L (start fs args) \<or> flag_given CHR ''l'' args,
       C := C (start fs args) \<or> flag_given CHR ''c'' args\<rparr>"
  let ?s1 = "?s\<lparr>opens := opens ?s @ [(''temp.txt'', True)],
                files := (files ?s)(''temp.txt'' \<mapsto> read_stdin input [])\<rparr>"
  let ?ell = "False \<or> flag_given CHR ''C'' args"
  have m: "main e input fs args =
      (if fopen_fails e (length (opens ?s))
       then Undefined (?s\<lparr>opens := opens ?s @ [(''temp.txt'', False)]\<rparr>)
       else
         (case count_file e ?ell ''temp.txt'' ?s1 of
            Inl halt \<Rightarrow> halt
          | Inr s' \<Rightarrow>
              Exit 0 (s'\<lparr>out := out s' @ [Newline], files := (files s')(''temp.txt'' := None)\<rparr>)))"
    by (simp add: main_unfold main_loop_flags_only [OF assms(1)])
  have z: "CHARS_EXCLUDED ?s1 = 0" "WORDS_EXCLUDED ?s1 = 0" "out ?s1 = []"
    "length (opens ?s1) = 1" "files ?s1 ''temp.txt'' = Some (read_stdin input [])"
    by (simp_all add: start_globals)
  have nz: "EXIT_FAILURE \<noteq> 0"
    by (simp add: EXIT_FAILURE_def)
  show ?thesis
  proof (cases "count_file e ?ell ''temp.txt'' ?s1")
    case (Inl halt)
    from count_file_Inl [OF Inl] obtain s'' where "halt = Exit EXIT_FAILURE s''"
      by auto
    with assms(2) m Inl nz show ?thesis
      by (auto split: if_splits)
  next
    case (Inr s1)
    from assms(2) m Inr have
      s': "s' = s1\<lparr>out := out s1 @ [Newline], files := (files s1)(''temp.txt'' := None)\<rparr>"
      by (auto split: if_splits)
    from count_file_adjusted [OF z(1,2), where e = e and ellide_comments = ?ell
        and filename = "''temp.txt''"] Inr
    have "out s1 = out ?s1 @ counts_line (L ?s1, W ?s1, C ?s1)
                              (adjusted e (length (opens ?s1)) ?ell (read_stdin input []))"
      unfolding z(5) by auto
    then have o: "out s1 = counts_line (L ?s1, W ?s1, C ?s1)
                             (adjusted e 1 (flag_given CHR ''C'' args) (read_stdin input []))"
      by (simp only: z(3,4) append_Nil simp_thms)
    from count_file_Inr [OF Inr] have
      k: "L s1 = L ?s1" "W s1 = W ?s1" "C s1 = C ?s1" "CHARS_EXCLUDED s1 = 0" "WORDS_EXCLUDED s1 = 0"
      by simp_all
    have "L s' = L ?s1" "W s' = W ?s1" "C s' = C ?s1"
      by (simp_all add: s' k)
    with o k(4,5) show ?thesis
      by (simp add: s')
  qed
qed

text \<open>
  C7. For every file that \<^verbatim>\<open>wc\<close> opens, with whatever the exclusion counters hold: the
  counts it prints (those shown) are lines, words less \<^verbatim>\<open>WORDS_EXCLUDED\<close> and bytes less
  \<^verbatim>\<open>CHARS_EXCLUDED\<close>; exactly these three are added to the totals, shown or not; and
  both exclusion counters are zero afterwards. For every run with a file argument, the
  per-file lines printed are those of the report of the run: each file's line shows
  the adjusted counts of that file alone, nothing carried over from the file before;
  likewise the one line of a run on standard input that ends with status 0. For every
  run with two or more file arguments that ends with status 0, every file argument is
  in the report, the last line printed is the totals line, and each of its three
  numbers is the sum of that column of the report over all files, whichever counts
  the per-file lines show: the sum in 32-bit \<^verbatim>\<open>int\<close> arithmetic, which is the sum
  itself whenever that is in the range of \<^verbatim>\<open>int\<close>.
\<close>

theorem adjusted_counts_fold_into_totals:
  "(files s filename = Some bytes \<and> \<not> fopen_fails e (length (opens s)) \<and>
    wc_loop (libc_iswspace e) bytes (0, 0, 0) = (words, lines, chars) \<longrightarrow>
      wc e filename s =
        Inr (s\<lparr>opens := opens s @ [(filename, True)],
               out := out s @
                 counts_line (L s, W s, C s)
                   (lines, words - WORDS_EXCLUDED s, chars - CHARS_EXCLUDED s),
               TOTAL_WORDS := TOTAL_WORDS s + (words - WORDS_EXCLUDED s),
               TOTAL_LINES := TOTAL_LINES s + lines,
               TOTAL_CHARS := TOTAL_CHARS s + (chars - CHARS_EXCLUDED s),
               WORDS_EXCLUDED := 0, CHARS_EXCLUDED := 0\<rparr>)) \<and>
   (file_args args \<noteq> [] \<longrightarrow>
      filter (\<lambda>item. \<not> is_total item) (out (final (main e input fs args))) =
        file_lines (report e fs (start_shown args) False 0 args)) \<and>
   (file_args flags = [] \<and> main e input fs flags = Exit 0 s'' \<longrightarrow>
      out s'' = counts_line (L s'', W s'', C s'')
                 (adjusted e 1 (flag_given CHR ''C'' flags) (read_stdin input [])) @ [Newline] \<and>
      CHARS_EXCLUDED s'' = 0 \<and> WORDS_EXCLUDED s'' = 0) \<and>
   (main e input fs args = Exit 0 s' \<and> 2 \<le> length (file_args args) \<longrightarrow>
      length (report e fs (start_shown args) False 0 args) = length (file_args args) \<and>
      last (out s') = Total (sint (TOTAL_LINES s')) (sint (TOTAL_WORDS s')) (sint (TOTAL_CHARS s')) \<and>
      TOTAL_LINES s' = sum_list (report_lines (report e fs (start_shown args) False 0 args)) \<and>
      TOTAL_WORDS s' = sum_list (report_words (report e fs (start_shown args) False 0 args)) \<and>
      TOTAL_CHARS s' = sum_list (report_bytes (report e fs (start_shown args) False 0 args)) \<and>
      exact_sum (report_lines (report e fs (start_shown args) False 0 args)) (sint (TOTAL_LINES s')) \<and>
      exact_sum (report_words (report e fs (start_shown args) False 0 args)) (sint (TOTAL_WORDS s')) \<and>
      exact_sum (report_bytes (report e fs (start_shown args) False 0 args)) (sint (TOTAL_CHARS s')) \<and>
      CHARS_EXCLUDED s' = 0 \<and> WORDS_EXCLUDED s' = 0)"
proof (intro conjI impI)
  assume "files s filename = Some bytes \<and> \<not> fopen_fails e (length (opens s)) \<and>
    wc_loop (libc_iswspace e) bytes (0, 0, 0) = (words, lines, chars)"
  then show "wc e filename s =
        Inr (s\<lparr>opens := opens s @ [(filename, True)],
               out := out s @
                 counts_line (L s, W s, C s)
                   (lines, words - WORDS_EXCLUDED s, chars - CHARS_EXCLUDED s),
               TOTAL_WORDS := TOTAL_WORDS s + (words - WORDS_EXCLUDED s),
               TOTAL_LINES := TOTAL_LINES s + lines,
               TOTAL_CHARS := TOTAL_CHARS s + (chars - CHARS_EXCLUDED s),
               WORDS_EXCLUDED := 0, CHARS_EXCLUDED := 0\<rparr>)"
    by (simp add: wc_unfold)
next
  assume "file_args args \<noteq> []"
  from main_files [OF this, where e = e and input = input and fs = fs]
  show "filter (\<lambda>item. \<not> is_total item) (out (final (main e input fs args))) =
        file_lines (report e fs (start_shown args) False 0 args)"
    by (cases "main e input fs args") (auto simp: file_lines_no_total split: if_splits)
next
  assume "file_args flags = [] \<and> main e input fs flags = Exit 0 s''"
  then have "out s'' = counts_line (L s'', W s'', C s'')
                 (adjusted e 1 (flag_given CHR ''C'' flags) (read_stdin input [])) @ [Newline] \<and>
      CHARS_EXCLUDED s'' = 0 \<and> WORDS_EXCLUDED s'' = 0"
    using main_stdin [of flags e input fs s''] by simp
  then show "out s'' = counts_line (L s'', W s'', C s'')
                 (adjusted e 1 (flag_given CHR ''C'' flags) (read_stdin input [])) @ [Newline]"
    "CHARS_EXCLUDED s'' = 0" "WORDS_EXCLUDED s'' = 0"
    by simp_all
next
  assume run: "main e input fs args = Exit 0 s' \<and> 2 \<le> length (file_args args)"
  then have "file_args args \<noteq> []"
    by auto
  from main_files [OF this, where e = e and input = input and fs = fs] run have
    r: "out s' = file_lines (report e fs (start_shown args) False 0 args) @
          [Total (sint (TOTAL_LINES s')) (sint (TOTAL_WORDS s')) (sint (TOTAL_CHARS s'))]"
      "length (report e fs (start_shown args) False 0 args) = length (file_args args)"
      "TOTAL_LINES s' = sum_list (report_lines (report e fs (start_shown args) False 0 args))"
      "TOTAL_WORDS s' = sum_list (report_words (report e fs (start_shown args) False 0 args))"
      "TOTAL_CHARS s' = sum_list (report_bytes (report e fs (start_shown args) False 0 args))"
      "CHARS_EXCLUDED s' = 0" "WORDS_EXCLUDED s' = 0"
    by simp_all
  from r(2) show "length (report e fs (start_shown args) False 0 args) = length (file_args args)" .
  from r(1) show "last (out s') =
      Total (sint (TOTAL_LINES s')) (sint (TOTAL_WORDS s')) (sint (TOTAL_CHARS s'))"
    by simp
  from r(3) show "TOTAL_LINES s' = sum_list (report_lines (report e fs (start_shown args) False 0 args))" .
  from r(4) show "TOTAL_WORDS s' = sum_list (report_words (report e fs (start_shown args) False 0 args))" .
  from r(5) show "TOTAL_CHARS s' = sum_list (report_bytes (report e fs (start_shown args) False 0 args))" .
  show "exact_sum (report_lines (report e fs (start_shown args) False 0 args)) (sint (TOTAL_LINES s'))"
    unfolding r(3) by (rule exact_sum_sum_list)
  show "exact_sum (report_words (report e fs (start_shown args) False 0 args)) (sint (TOTAL_WORDS s'))"
    unfolding r(4) by (rule exact_sum_sum_list)
  show "exact_sum (report_bytes (report e fs (start_shown args) False 0 args)) (sint (TOTAL_CHARS s'))"
    unfolding r(5) by (rule exact_sum_sum_list)
  from r(6,7) show "CHARS_EXCLUDED s' = 0" "WORDS_EXCLUDED s' = 0" .
qed

theorem adjusted_counts_fold_into_totals_witness:
  "wc c_locale ''a''
      \<lparr>W = False, L = True, C = True, CHARS_EXCLUDED = 4, WORDS_EXCLUDED = 2,
       TOTAL_WORDS = 5, TOTAL_LINES = 1, TOTAL_CHARS = 10, files = two_files,
       opens = [], out = []\<rparr> =
     Inr \<lparr>W = False, L = True, C = True, CHARS_EXCLUDED = 0, WORDS_EXCLUDED = 0,
          TOTAL_WORDS = 6, TOTAL_LINES = 2, TOTAL_CHARS = 13, files = two_files,
          opens = [(''a'', True)], out = [Count Line_count 1, Count Byte_count 3]\<rparr> \<and>
   report c_locale two_files (start_shown [''-l'', ''-C'', ''a'', ''b'']) False 0
       [''-l'', ''-C'', ''a'', ''b''] =
     [((True, False, False), (1, 1, 3), ''a''), ((True, False, False), (1, 2, 4), ''b'')] \<and>
   main c_locale (''x // y'' @ [CHR 0x0A]) two_files [''-l'', ''-C'', ''a'', ''b''] =
     Exit 0
       \<lparr>W = False, L = True, C = False, CHARS_EXCLUDED = 0, WORDS_EXCLUDED = 0,
        TOTAL_WORDS = 3, TOTAL_LINES = 2, TOTAL_CHARS = 7, files = two_files,
        opens = [(''a'', True), (''a'', True), (''a'', True),
                 (''b'', True), (''b'', True), (''b'', True)],
        out = [Count Line_count 1, File_name ''a'', Count Line_count 1, File_name ''b'',
               Total 2 3 7]\<rparr> \<and>
   filter (\<lambda>item. \<not> is_total item)
       (out (final (main c_locale (''x // y'' @ [CHR 0x0A]) two_files [''-l'', ''-C'', ''a'', ''b'']))) =
     file_lines [((True, False, False), (1, 1, 3), ''a''), ((True, False, False), (1, 2, 4), ''b'')] \<and>
   file_lines [((True, False, False), (1, 1, 3), ''a''), ((True, False, False), (1, 2, 4), ''b'')] =
     [Count Line_count 1, File_name ''a'', Count Line_count 1, File_name ''b''] \<and>
   exact_sum [1, 1] 2 \<and> exact_sum [1, 2] 3 \<and> exact_sum [3, 4] 7 \<and>
   main c_locale (''x // y'' @ [CHR 0x0A]) two_files [''-C''] =
     Exit 0
       \<lparr>W = True, L = True, C = True, CHARS_EXCLUDED = 0, WORDS_EXCLUDED = 0,
        TOTAL_WORDS = 1, TOTAL_LINES = 1, TOTAL_CHARS = 3,
        files = two_files(''temp.txt'' := None),
        opens = [(''temp.txt'', True), (''temp.txt'', True), (''temp.txt'', True),
                 (''temp.txt'', True)],
        out = [Count Line_count 1, Count Word_count 1, Count Byte_count 3, Newline]\<rparr> \<and>
   adjusted c_locale 1 (flag_given CHR ''C'' [''-C'']) (read_stdin (''x // y'' @ [CHR 0x0A]) []) =
     (1, 1, 3) \<and>
   [Count Line_count 1, Count Word_count 1, Count Byte_count 3, Newline] =
     counts_line (True, True, True) (1, 1, 3) @ [Newline]"
proof -
  let ?args = "[''-l'', ''-C'', ''a'', ''b'']"
  let ?input = "''x // y'' @ [CHR 0x0A]"
  let ?before = "\<lparr>W = False, L = True, C = True, CHARS_EXCLUDED = 4, WORDS_EXCLUDED = 2,
       TOTAL_WORDS = 5, TOTAL_LINES = 1, TOTAL_CHARS = 10, files = two_files,
       opens = [], out = []\<rparr>"
  let ?files_end = "\<lparr>W = False, L = True, C = False, CHARS_EXCLUDED = 0, WORDS_EXCLUDED = 0,
        TOTAL_WORDS = 3, TOTAL_LINES = 2, TOTAL_CHARS = 7, files = two_files,
        opens = [(''a'', True), (''a'', True), (''a'', True),
                 (''b'', True), (''b'', True), (''b'', True)],
        out = [Count Line_count 1, File_name ''a'', Count Line_count 1, File_name ''b'',
               Total 2 3 7]\<rparr>"
  let ?stdin_end = "\<lparr>W = True, L = True, C = True, CHARS_EXCLUDED = 0, WORDS_EXCLUDED = 0,
        TOTAL_WORDS = 1, TOTAL_LINES = 1, TOTAL_CHARS = 3,
        files = two_files(''temp.txt'' := None),
        opens = [(''temp.txt'', True), (''temp.txt'', True), (''temp.txt'', True),
                 (''temp.txt'', True)],
        out = [Count Line_count 1, Count Word_count 1, Count Byte_count 3, Newline]\<rparr>"
  have run: "main c_locale ?input two_files ?args = Exit 0 ?files_end"
    by (simp add: main_def initial_def c_locale_def exclude_comments_def wc_def fopen_def Let_def
        two_files_def scan_eval chars_pass_eval words_pass_eval)
  have staged: "read_stdin ?input [] = ?input"
    by (simp add: read_stdin.simps eval_nat_numeral)
  have stdin: "main c_locale ?input two_files [''-C''] = Exit 0 ?stdin_end"
    by (simp add: main_def initial_def c_locale_def exclude_comments_def wc_def fopen_def
        fopen_wb_def Let_def staged [simplified] scan_eval chars_pass_eval words_pass_eval)
  have rep: "report c_locale two_files (start_shown ?args) False 0 ?args =
     [((True, False, False), (1, 1, 3), ''a''), ((True, False, False), (1, 2, 4), ''b'')]"
    by (simp add: start_shown_def shows_all_by_default_def c_locale_def two_files_def opens_ok_def
        adjusted_def scan_eval chars_pass_eval words_pass_eval)
  have adj: "adjusted c_locale 1 (flag_given CHR ''C'' [''-C'']) (read_stdin ?input []) = (1, 1, 3)"
    by (simp add: staged [simplified] flag_given_def c_locale_def adjusted_def scan_eval
        chars_pass_eval words_pass_eval)
  have n: "2 \<le> length (file_args ?args)" "file_args ?args \<noteq> []" "file_args [''-C''] = []"
    by (simp_all add: file_args_def)
  have f: "files ?before ''a'' = Some ?input"
    "\<not> fopen_fails c_locale (length (opens ?before))"
    by (simp_all add: two_files_def c_locale_def)
  have w: "wc_loop (libc_iswspace c_locale) ?input (0, 0, 0) = (3, 1, 7)"
    by (simp add: c_locale_def scan_eval)
  have l: "file_lines [((True, False, False), (1, 1, 3), ''a''), ((True, False, False), (1, 2, 4), ''b'')] =
     [Count Line_count 1, File_name ''a'', Count Line_count 1, File_name ''b'']"
    by (simp add: file_lines_def counts_line_def)
  from adjusted_counts_fold_into_totals [where s = ?before and filename = "''a''"
      and bytes = ?input and e = c_locale and words = 3 and lines = 1 and chars = 7
      and input = ?input and fs = two_files and args = ?args and s' = ?files_end
      and flags = "[''-C'']" and s'' = ?stdin_end] run stdin n f w rep l adj
  show ?thesis
    by (simp add: counts_line_def report_lines_def report_words_def report_bytes_def)
qed

section \<open>Which counts are shown\<close>


















text \<open>
  Two things that the statement above leaves open. The totals line is printed by one
  call of \<^verbatim>\<open>printf\<close> that is not under the flags: it shows all three totals whichever
  counts the per-file lines show. And the test at the head of \<^verbatim>\<open>main\<close> compares the first
  argument with \<^verbatim>\<open>-C\<close> as a whole: \<^verbatim>\<open>-C -l f\<close> shows all three counts, where \<^verbatim>\<open>-Cl f\<close> and
  \<^verbatim>\<open>-l -C f\<close> show the line count alone.
\<close>

lemma totals_line_not_under_flags:
  "out (final (main c_locale [] two_files [''-l'', ''a'', ''b''])) =
     [Count Line_count 1, File_name ''a'', Count Line_count 1, File_name ''b'', Total 2 5 11]"
  by (simp add: main_def initial_def c_locale_def wc_def fopen_def Let_def two_files_def scan_eval)

lemma first_argument_compared_with_dash_C:
  "out (final (main c_locale [] hello [''-C'', ''-l'', ''f''])) =
     [Count Line_count 1, Count Word_count 2, Count Byte_count 12, File_name ''f''] \<and>
   out (final (main c_locale [] hello [''-Cl'', ''f''])) = [Count Line_count 1, File_name ''f''] \<and>
   out (final (main c_locale [] hello [''-l'', ''-C'', ''f''])) = [Count Line_count 1, File_name ''f'']"
proof -
  have "out (final (main c_locale [] hello [''-C'', ''-l'', ''f''])) =
     [Count Line_count 1, Count Word_count 2, Count Byte_count 12, File_name ''f'']"
    by (simp add: main_def initial_def c_locale_def exclude_comments_def wc_def fopen_def Let_def
        hello_def scan_eval chars_pass_eval words_pass_eval)
  moreover have
    "out (final (main c_locale [] hello [''-Cl'', ''f''])) = [Count Line_count 1, File_name ''f'']"
    by (simp add: main_def initial_def c_locale_def exclude_comments_def wc_def fopen_def Let_def
        hello_def scan_eval chars_pass_eval words_pass_eval)
  moreover have
    "out (final (main c_locale [] hello [''-l'', ''-C'', ''f''])) = [Count Line_count 1, File_name ''f'']"
    by (simp add: main_def initial_def c_locale_def exclude_comments_def wc_def fopen_def Let_def
        hello_def scan_eval chars_pass_eval words_pass_eval)
  ultimately show ?thesis
    by simp
qed

section \<open>The second pass on concrete files\<close>

text \<open>
  C1. The claim is that the word pass lowers the count of a comment by one exactly
  when the marker \<^verbatim>\<open>//\<close> is glued to bytes in front of it. The pass decides this by
  the first byte of the token, \<^verbatim>\<open>if (c1 != '/') no_space_before_comment = true\<close>. For
  \<^verbatim>\<open>foo//bar baz\<close> it does lower the count: one word is excluded of two, and \<^verbatim>\<open>foo\<close>
  stays counted. For the token \<^verbatim>\<open>/a//b\<close>, whose marker is glued to \<^verbatim>\<open>/a\<close>, it does not:
  one word is excluded of one, and the run reports 0 words for a line on which the
  word \<^verbatim>\<open>/a\<close> stands in front of the comment. This holds whatever the unassigned \<^verbatim>\<open>c2\<close>
  holds.
\<close>

theorem glued_marker_after_slash_miscounted:
  "ec_words_loop junk 0 (''/a//b'' @ [CHR 0x0A]) 0 = 1 \<and>
   wc_loop wspace (''/a//b'' @ [CHR 0x0A]) (0, 0, 0) = (1, 1, 6) \<and>
   out (final (main c_locale [] (\<lambda>name. Some (''/a//b'' @ [CHR 0x0A])) [''-C'', ''f''])) =
     [Count Line_count 1, Count Word_count 0, Count Byte_count 3, File_name ''f''] \<and>
   ec_words_loop junk 0 (''foo//bar baz'' @ [CHR 0x0A]) 0 = 1 \<and>
   wc_loop wspace (''foo//bar baz'' @ [CHR 0x0A]) (0, 0, 0) = (2, 1, 13) \<and>
   out (final (main c_locale [] (\<lambda>name. Some (''foo//bar baz'' @ [CHR 0x0A])) [''-C'', ''f''])) =
     [Count Line_count 1, Count Word_count 1, Count Byte_count 4, File_name ''f'']"
proof -
  have "ec_words_loop junk 0 (''/a//b'' @ [CHR 0x0A]) 0 = 1"
    by (cases "junk 0 = 47") (simp_all add: words_pass_eval)
  moreover have "wc_loop wspace (''/a//b'' @ [CHR 0x0A]) (0, 0, 0) = (1, 1, 6)"
    by (simp add: scan_eval)
  moreover have "ec_words_loop junk 0 (''foo//bar baz'' @ [CHR 0x0A]) 0 = 1"
    by (simp add: words_pass_eval)
  moreover have "wc_loop wspace (''foo//bar baz'' @ [CHR 0x0A]) (0, 0, 0) = (2, 1, 13)"
    by (simp add: scan_eval)
  moreover have
    "out (final (main c_locale [] (\<lambda>name. Some (''/a//b'' @ [CHR 0x0A])) [''-C'', ''f''])) =
       [Count Line_count 1, Count Word_count 0, Count Byte_count 3, File_name ''f'']"
    by (simp add: main_def initial_def c_locale_def exclude_comments_def wc_def fopen_def Let_def
        scan_eval chars_pass_eval words_pass_eval)
  moreover have
    "out (final (main c_locale [] (\<lambda>name. Some (''foo//bar baz'' @ [CHR 0x0A])) [''-C'', ''f''])) =
       [Count Line_count 1, Count Word_count 1, Count Byte_count 4, File_name ''f'']"
    by (simp add: main_def initial_def c_locale_def exclude_comments_def wc_def fopen_def Let_def
        scan_eval chars_pass_eval words_pass_eval)
  ultimately show ?thesis
    by simp
qed

theorem glued_marker_after_slash_miscounted_witness:
  "ec_words_loop (\<lambda>k. 47) 0 (''/a//b'' @ [CHR 0x0A]) 0 = 1 \<and>
   ec_words_loop (\<lambda>k. 47) 0 (''foo//bar baz'' @ [CHR 0x0A]) 0 = 1"
  using glued_marker_after_slash_miscounted [of "\<lambda>k. 47"] by simp

text \<open>
  C10. The claim is that the result of \<^verbatim>\<open>exclude_comments\<close> is the same whatever the
  unassigned previous-byte variables hold. For the file \<^verbatim>\<open>/ a\<close> with its newline, whose
  first byte is \<^verbatim>\<open>/\<close>, both passes read \<^verbatim>\<open>c2\<close> before assigning it: with 0 there, nothing
  is excluded; with 47 there (the code of \<^verbatim>\<open>/\<close>), 4 characters and 2 words are. In the
  word pass the variable is declared anew for every token: where the second token of
  \<^verbatim>\<open>a/ /b c\<close> finds in it the \<^verbatim>\<open>/\<close> that ended the first token, 2 words are excluded
  from a file without any \<^verbatim>\<open>//\<close>.
\<close>

theorem indeterminate_c2_changes_exclusion:
  "exclude_comments c_locale ''f'' (initial (\<lambda>name. Some (''/ a'' @ [CHR 0x0A]))) =
     Inr ((initial (\<lambda>name. Some (''/ a'' @ [CHR 0x0A])))
            \<lparr>CHARS_EXCLUDED := 0, WORDS_EXCLUDED := 0, opens := [(''f'', True), (''f'', True)]\<rparr>) \<and>
   exclude_comments (c_locale\<lparr>indeterminate := \<lambda>n k. 47\<rparr>) ''f''
       (initial (\<lambda>name. Some (''/ a'' @ [CHR 0x0A]))) =
     Inr ((initial (\<lambda>name. Some (''/ a'' @ [CHR 0x0A])))
            \<lparr>CHARS_EXCLUDED := 4, WORDS_EXCLUDED := 2, opens := [(''f'', True), (''f'', True)]\<rparr>) \<and>
   ec_words_loop (\<lambda>k. 0) 0 (''a/ /b c'' @ [CHR 0x0A]) 0 = 0 \<and>
   ec_words_loop (\<lambda>k. if k = 1 then 47 else 0) 0 (''a/ /b c'' @ [CHR 0x0A]) 0 = 2"
proof -
  have "ec_words_loop (\<lambda>k. 0) 0 (''a/ /b c'' @ [CHR 0x0A]) 0 = 0"
    by (simp add: words_pass_eval)
  moreover have "ec_words_loop (\<lambda>k. if k = 1 then 47 else 0) 0 (''a/ /b c'' @ [CHR 0x0A]) 0 = 2"
    by (simp add: words_pass_eval)
  ultimately show ?thesis
    by (simp add: initial_def c_locale_def exclude_comments_def fopen_def Let_def
        chars_pass_eval words_pass_eval)
qed

text \<open>
  C2 (amended). For the file that holds exactly \<^verbatim>\<open>foo // bar baz\<close> and a newline,
  processed with \<^verbatim>\<open>-C\<close>: the raw word count is 4 and 3 words are excluded (the token
  \<^verbatim>\<open>//\<close> itself, \<^verbatim>\<open>bar\<close> and \<^verbatim>\<open>baz\<close>), so 1 word is reported; the raw byte count is 15
  and 10 characters are excluded, so 5 bytes are reported; 1 line. This holds whatever
  the unassigned variables hold, on every platform whose \<^verbatim>\<open>iswspace\<close> classifies the
  bytes of this file as \<^const>\<open>wspace\<close> does, when no \<^verbatim>\<open>fopen\<close> fails.
\<close>

theorem foo_comment_run:
  assumes "\<forall>n. \<not> fopen_fails e n"
    and "\<forall>b\<in>set (''foo // bar baz'' @ [CHR 0x0A]). libc_iswspace e (of_char b) = wspace (of_char b)"
    and "fs name = Some (''foo // bar baz'' @ [CHR 0x0A])"
    and "\<not> starts_dash name"
  shows "wc_loop (libc_iswspace e) (''foo // bar baz'' @ [CHR 0x0A]) (0, 0, 0) = (4, 1, 15) \<and>
         ec_chars_loop (''foo // bar baz'' @ [CHR 0x0A]) c2 0 = 10 \<and>
         ec_words_loop junk 0 (''foo // bar baz'' @ [CHR 0x0A]) 0 = 3 \<and>
         main e input fs [''-C'', name] =
           Exit 0
             \<lparr>W = True, L = True, C = True, CHARS_EXCLUDED = 0, WORDS_EXCLUDED = 0,
              TOTAL_WORDS = 1, TOTAL_LINES = 1, TOTAL_CHARS = 5, files = fs,
              opens = [(name, True), (name, True), (name, True)],
              out = [Count Line_count 1, Count Word_count 1, Count Byte_count 5, File_name name]\<rparr>"
proof -
  have raw: "wc_loop (libc_iswspace e) (''foo // bar baz'' @ [CHR 0x0A]) (0, 0, 0) = (4, 1, 15)"
    using assms(2) by (simp add: scan_eval)
  have chars: "ec_chars_loop (''foo // bar baz'' @ [CHR 0x0A]) c2 x = x + 10" for c2 x
    by (simp add: chars_pass_eval)
  have words: "ec_words_loop junk 0 (''foo // bar baz'' @ [CHR 0x0A]) x = x + 3" for junk x
    by (cases "junk 1 = 47") (simp_all add: words_pass_eval)
  have "main e input fs [''-C'', name] =
           Exit 0
             \<lparr>W = True, L = True, C = True, CHARS_EXCLUDED = 0, WORDS_EXCLUDED = 0,
              TOTAL_WORDS = 1, TOTAL_LINES = 1, TOTAL_CHARS = 5, files = fs,
              opens = [(name, True), (name, True), (name, True)],
              out = [Count Line_count 1, Count Word_count 1, Count Byte_count 5, File_name name]\<rparr>"
    using assms(1,3,4)
    by (simp add: main_def initial_def exclude_comments_def wc_def fopen_def Let_def
        raw [simplified] chars [simplified] words [simplified])
  with raw chars [of c2 0] words [of junk 0] show ?thesis
    by simp
qed

theorem foo_comment_run_witness:
  "\<not> starts_dash ''f'' \<and>
   wc_loop (libc_iswspace c_locale) (''foo // bar baz'' @ [CHR 0x0A]) (0, 0, 0) = (4, 1, 15) \<and>
   ec_chars_loop (''foo // bar baz'' @ [CHR 0x0A]) 0 0 = 10 \<and>
   ec_words_loop (\<lambda>k. 0) 0 (''foo // bar baz'' @ [CHR 0x0A]) 0 = 3 \<and>
   out (final (main c_locale [] (\<lambda>name. Some (''foo // bar baz'' @ [CHR 0x0A])) [''-C'', ''f''])) =
     [Count Line_count 1, Count Word_count 1, Count Byte_count 5, File_name ''f'']"
proof -
  have h: "\<forall>n. \<not> fopen_fails c_locale n"
    "\<forall>b\<in>set (''foo // bar baz'' @ [CHR 0x0A]). libc_iswspace c_locale (of_char b) = wspace (of_char b)"
    "(\<lambda>name. Some (''foo // bar baz'' @ [CHR 0x0A])) ''f'' = Some (''foo // bar baz'' @ [CHR 0x0A])"
    "\<not> starts_dash ''f''"
    by (simp_all add: c_locale_def)
  from foo_comment_run [OF h, of 0 "\<lambda>k. 0" "[]"] h show ?thesis
    by simp
qed

text \<open>
  C2 as worded, 2 excluded words and 2 reported words, fails: the marker token is a
  word of the raw count and is excluded with the comment.
\<close>

theorem foo_comment_counterexample:
  "ec_words_loop (\<lambda>k. 0) 0 (''foo // bar baz'' @ [CHR 0x0A]) 0 = 3 \<and>
   ec_words_loop (\<lambda>k. 0) 0 (''foo // bar baz'' @ [CHR 0x0A]) 0 \<noteq> 2 \<and>
   out (final (main c_locale [] (\<lambda>name. Some (''foo // bar baz'' @ [CHR 0x0A])) [''-C'', ''f''])) =
     [Count Line_count 1, Count Word_count 1, Count Byte_count 5, File_name ''f''] \<and>
   out (final (main c_locale [] (\<lambda>name. Some (''foo // bar baz'' @ [CHR 0x0A])) [''-C'', ''f''])) \<noteq>
     [Count Line_count 1, Count Word_count 2, Count Byte_count 5, File_name ''f'']"
proof -
  have "ec_words_loop (\<lambda>k. 0) 0 (''foo // bar baz'' @ [CHR 0x0A]) 0 = 3"
    by (simp add: words_pass_eval)
  moreover have
    "out (final (main c_locale [] (\<lambda>name. Some (''foo // bar baz'' @ [CHR 0x0A])) [''-C'', ''f''])) =
       [Count Line_count 1, Count Word_count 1, Count Byte_count 5, File_name ''f'']"
    by (simp add: main_def initial_def c_locale_def exclude_comments_def wc_def fopen_def Let_def
        scan_eval chars_pass_eval words_pass_eval)
  ultimately show ?thesis
    by simp
qed

end
